theory Spec2Isabelle
  imports Complex_Main "HOL-Library.Stream" "HOL-Library.FSet"
begin

section \<open>Terrain generator: data model\<close>

text \<open>
  A shallow embedding of \<^verbatim>\<open>terrain_generator.py\<close>. Python floats are read as
  real numbers (no rounding, no NaN, no infinities), Python ints as \<open>int\<close>.
  Every exception the source can raise is a value of \<open>error\<close>; a function that can
  raise returns \<open>error + 'a\<close>, with \<open>Inl\<close> for the exception.
\<close>

datatype error = IndexError | KeyError | ZeroDivisionError | ValueError | StopIteration

definition and_then :: "error + 'a \<Rightarrow> ('a \<Rightarrow> error + 'b) \<Rightarrow> error + 'b" where
  "and_then m f = (case m of Inl e \<Rightarrow> Inl e | Inr v \<Rightarrow> f v)"

lemma and_then_Inl [simp]: "and_then (Inl e) f = Inl e"
  by (simp add: and_then_def)

lemma and_then_Inr [simp]: "and_then (Inr v) f = f v"
  by (simp add: and_then_def)

lemma and_then_cong [fundef_cong]:
  "m = m' \<Longrightarrow> (\<And>v. m' = Inr v \<Longrightarrow> f v = f' v) \<Longrightarrow> and_then m f = and_then m' f'"
  by (cases m') (simp_all add: and_then_def)

lemma and_then_eq_Inr: "and_then m f = Inr r \<longleftrightarrow> (\<exists>v. m = Inr v \<and> f v = Inr r)"
  by (cases m) simp_all

lemma and_then_eq_Inl:
  "and_then m f = Inl e \<longleftrightarrow> m = Inl e \<or> (\<exists>v. m = Inr v \<and> f v = Inl e)"
  by (cases m) simp_all

text \<open>
  \<^verbatim>\<open>xs[i]\<close> for a Python int \<open>i\<close>: a negative index counts from the end, an index
  outside the list raises IndexError.
\<close>

definition py_index :: "'a list \<Rightarrow> int \<Rightarrow> error + 'a" where
  "py_index xs i =
     (if 0 \<le> i \<and> i < int (length xs) then Inr (xs ! nat i)
      else if i < 0 \<and> - int (length xs) \<le> i then Inr (xs ! nat (int (length xs) + i))
      else Inl IndexError)"

text \<open>\<^verbatim>\<open>xs[i] = v\<close>, with the same index rule.\<close>

definition py_store :: "'a list \<Rightarrow> int \<Rightarrow> 'a \<Rightarrow> error + 'a list" where
  "py_store xs i v =
     (if 0 \<le> i \<and> i < int (length xs) then Inr (xs[nat i := v])
      else if i < 0 \<and> - int (length xs) \<le> i then Inr (xs[nat (int (length xs) + i) := v])
      else Inl IndexError)"

record PlanetProfile =
  profile_name :: string
  mean :: real
  stdev :: real
  roughness :: real
  profile_weight :: real

record TileType =
  tile_name :: string
  height_range :: "real \<times> real"
  allowed_neighbors :: "string list"
  tile_weight :: real

definition PLANET_PROFILES :: "PlanetProfile list" where
  "PLANET_PROFILES =
    [\<lparr>profile_name = ''Earth'', mean = 200, stdev = 1200, roughness = 6 / 10, profile_weight = 1\<rparr>,
     \<lparr>profile_name = ''Mars'', mean = - 800, stdev = 2500, roughness = 7 / 10, profile_weight = 9 / 10\<rparr>,
     \<lparr>profile_name = ''Moon'', mean = 0, stdev = 1700, roughness = 8 / 10, profile_weight = 7 / 10\<rparr>,
     \<lparr>profile_name = ''Venus'', mean = 0, stdev = 1100, roughness = 5 / 10, profile_weight = 6 / 10\<rparr>,
     \<lparr>profile_name = ''Mercury'', mean = 100, stdev = 2000, roughness = 9 / 10, profile_weight = 6 / 10\<rparr>,
     \<lparr>profile_name = ''Europa'', mean = - 300, stdev = 800, roughness = 4 / 10, profile_weight = 5 / 10\<rparr>,
     \<lparr>profile_name = ''Titan'', mean = - 500, stdev = 900, roughness = 4 / 10, profile_weight = 5 / 10\<rparr>]"

text \<open>The dict \<^verbatim>\<open>TILE_TYPES\<close>, in insertion order (the order \<^verbatim>\<open>.items()\<close> yields).\<close>

definition TILE_TYPES :: "(string \<times> TileType) list" where
  "TILE_TYPES =
    [(''ocean'', \<lparr>tile_name = ''ocean'', height_range = (- 6000, - 200),
        allowed_neighbors = [''ocean'', ''shore'', ''lowland''], tile_weight = 1\<rparr>),
     (''shore'', \<lparr>tile_name = ''shore'', height_range = (- 200, 50),
        allowed_neighbors = [''ocean'', ''shore'', ''lowland''], tile_weight = 11 / 10\<rparr>),
     (''lowland'', \<lparr>tile_name = ''lowland'', height_range = (0, 800),
        allowed_neighbors = [''shore'', ''lowland'', ''highland''], tile_weight = 14 / 10\<rparr>),
     (''highland'', \<lparr>tile_name = ''highland'', height_range = (400, 2000),
        allowed_neighbors = [''lowland'', ''highland'', ''mountain''], tile_weight = 1\<rparr>),
     (''mountain'', \<lparr>tile_name = ''mountain'', height_range = (1500, 6500),
        allowed_neighbors = [''highland'', ''mountain'', ''polar''], tile_weight = 7 / 10\<rparr>),
     (''polar'', \<lparr>tile_name = ''polar'', height_range = (0, 3000),
        allowed_neighbors = [''ocean'', ''shore'', ''lowland'', ''highland'', ''mountain'', ''polar''],
        tile_weight = 4 / 10\<rparr>)]"

text \<open>\<^verbatim>\<open>TILE_TYPES[name]\<close>: KeyError for a name that is not a key.\<close>

definition tile_type :: "string \<Rightarrow> error + TileType" where
  "tile_type n = (case map_of TILE_TYPES n of None \<Rightarrow> Inl KeyError | Some t \<Rightarrow> Inr t)"

definition tile_names :: "string list" where
  "tile_names = map fst TILE_TYPES"

section \<open>The random source\<close>

text \<open>
  \<^verbatim>\<open>random.Random(seed)\<close> is a stream of draws. Each call of \<^verbatim>\<open>uniform\<close>,
  \<^verbatim>\<open>gauss\<close> or \<^verbatim>\<open>choice\<close> takes the next draw and reads from it what it needs:
  the value of \<^verbatim>\<open>random()\<close>, a standard normal deviate, or the raw integer from which
  \<^verbatim>\<open>_randbelow(n)\<close> takes an index below \<open>n\<close>. The stream is arbitrary, so every
  sequence of results the generator can give is covered.
\<close>

datatype draw = Draw (unit_val: real) (normal_val: real) (index_val: nat)

type_synonym rng = "draw stream"

text \<open>\<^verbatim>\<open>rng.uniform(a, b)\<close> is \<^verbatim>\<open>a + (b - a) * self.random()\<close>.\<close>

definition uniform :: "rng \<Rightarrow> real \<Rightarrow> real \<Rightarrow> real \<times> rng" where
  "uniform r a b = (a + (b - a) * unit_val (shd r), stl r)"

text \<open>\<^verbatim>\<open>rng.gauss(mu, sigma)\<close> is \<^verbatim>\<open>mu + z * sigma\<close> for a standard normal \<open>z\<close>.\<close>

definition gauss :: "rng \<Rightarrow> real \<Rightarrow> real \<Rightarrow> real \<times> rng" where
  "gauss r mu sigma = (mu + normal_val (shd r) * sigma, stl r)"

text \<open>\<^verbatim>\<open>rng.choice(seq)\<close>: IndexError on an empty sequence, else \<^verbatim>\<open>seq[_randbelow(len(seq))]\<close>.\<close>

definition choice :: "rng \<Rightarrow> 'a list \<Rightarrow> error + ('a \<times> rng)" where
  "choice r xs =
     (if xs = [] then Inl IndexError
      else Inr (xs ! (index_val (shd r) mod length xs), stl r))"

section \<open>Weighted choice\<close>

text \<open>
  The loop of \<^verbatim>\<open>_weighted_choice\<close>: \<open>current\<close> is the running sum before the
  item, \<open>None\<close> when the loop ends without returning.
\<close>

fun choice_walk :: "real \<Rightarrow> real \<Rightarrow> (string \<times> real) list \<Rightarrow> string option" where
  "choice_walk current pick [] = None"
| "choice_walk current pick ((n, w) # items) =
     (if current + w \<ge> pick then Some n else choice_walk (current + w) pick items)"

definition weighted_choice :: "rng \<Rightarrow> (string \<times> real) list \<Rightarrow> error + (string \<times> rng)" where
  "weighted_choice r items =
     (let total = sum_list (map snd items);
          (pick, r') = uniform r 0 total
      in case choice_walk 0 pick items of
           Some n \<Rightarrow> Inr (n, r')
         | None \<Rightarrow> and_then (py_index items (- 1)) (\<lambda>it. Inr (fst it, r')))"

lemma choice_walk_in_items: "choice_walk c p items = Some n \<Longrightarrow> n \<in> fst ` set items"
  by (induction c p items rule: choice_walk.induct) (auto split: if_splits)

lemma py_index_last: "xs \<noteq> [] \<Longrightarrow> py_index xs (- 1) = Inr (last xs)"
  by (cases xs rule: rev_cases) (simp_all add: py_index_def nth_append)

lemma py_index_last_empty: "py_index [] (- 1) = Inl IndexError"
  by (simp add: py_index_def)

lemma choice_walk_reaches:
  "c + sum_list (map snd items) \<ge> p \<Longrightarrow> items \<noteq> [] \<Longrightarrow> choice_walk c p items \<noteq> None"
proof (induction c p items rule: choice_walk.induct)
  case (1 current pick)
  then show ?case by simp
next
  case (2 current pick n w items)
  show ?case
  proof (cases "current + w \<ge> pick")
    case True
    then show ?thesis by simp
  next
    case False
    with "2.prems" have "items \<noteq> []" by (cases items) auto
    with 2 False show ?thesis by (simp add: add.assoc)
  qed
qed








section \<open>Planet profile model and empirical tile weights\<close>

text \<open>The profile loop of \<^verbatim>\<open>_planet_sample\<close>: the first profile whose running weight reaches the pick.\<close>

fun select_profile :: "real \<Rightarrow> real \<Rightarrow> PlanetProfile list \<Rightarrow> PlanetProfile option" where
  "select_profile current pick [] = None"
| "select_profile current pick (p # ps) =
     (if current + profile_weight p \<ge> pick then Some p
      else select_profile (current + profile_weight p) pick ps)"

text \<open>
  \<^verbatim>\<open>selected = profiles[-1]\<close> raises IndexError on an empty profile list, after the
  uniform draw. Three draws are taken: the pick and the two Gaussian deviates.
\<close>

definition planet_sample :: "rng \<Rightarrow> PlanetProfile list \<Rightarrow> error + (real \<times> rng)" where
  "planet_sample r profiles =
     (let total = sum_list (map profile_weight profiles);
          (pick, r1) = uniform r 0 total
      in and_then (py_index profiles (- 1)) (\<lambda>last_profile.
           let selected = (case select_profile 0 pick profiles of
                             Some p \<Rightarrow> p | None \<Rightarrow> last_profile);
               (base, r2) = gauss r1 (mean selected) (stdev selected);
               (rough, r3) = gauss r2 0 (stdev selected * roughness selected)
           in Inr (base + rough, r3)))"

text \<open>\<^verbatim>\<open>[_planet_sample(rng, profiles) for _ in range(n)]\<close>.\<close>

fun planet_samples :: "nat \<Rightarrow> rng \<Rightarrow> PlanetProfile list \<Rightarrow> error + (real list \<times> rng)" where
  "planet_samples 0 r profiles = Inr ([], r)"
| "planet_samples (Suc n) r profiles =
     and_then (planet_sample r profiles) (\<lambda>(s, r1).
     and_then (planet_samples n r1 profiles) (\<lambda>(ss, r2). Inr (s # ss, r2)))"

text \<open>
  The body of the loop of \<^verbatim>\<open>_initial_tile_weights\<close> after sampling: the number of
  samples inside the tile's range, both ends included, over the number of samples,
  floored at 0.05 and scaled by the tile's base weight.
\<close>

definition matches :: "TileType \<Rightarrow> real list \<Rightarrow> nat" where
  "matches tile samples =
     length (filter (\<lambda>s. fst (height_range tile) \<le> s \<and> s \<le> snd (height_range tile)) samples)"

definition empirical_weight :: "TileType \<Rightarrow> real list \<Rightarrow> real" where
  "empirical_weight tile samples =
     tile_weight tile * max (5 / 100) (real (matches tile samples) / real (length samples))"

fun tile_weights_loop ::
  "(string \<times> TileType) list \<Rightarrow> rng \<Rightarrow> PlanetProfile list \<Rightarrow> error + ((string \<times> real) list \<times> rng)" where
  "tile_weights_loop [] r profiles = Inr ([], r)"
| "tile_weights_loop ((n, tile) # rest) r profiles =
     and_then (planet_samples 30 r profiles) (\<lambda>(samples, r1).
     and_then (tile_weights_loop rest r1 profiles) (\<lambda>(ws, r2).
       Inr ((n, empirical_weight tile samples) # ws, r2)))"

text \<open>The weight table is a dict filled in the order of \<^verbatim>\<open>TILE_TYPES.items()\<close>.\<close>

definition initial_tile_weights ::
  "rng \<Rightarrow> PlanetProfile list \<Rightarrow> error + ((string \<times> real) list \<times> rng)" where
  "initial_tile_weights r profiles = tile_weights_loop TILE_TYPES r profiles"

lemma planet_sample_total:
  assumes "profiles \<noteq> []"
  shows "\<exists>v. planet_sample r profiles = Inr (v, sdrop 3 r)"
  using assms
  by (simp add: planet_sample_def uniform_def gauss_def py_index_last Let_def
      numeral_3_eq_3 split: option.split)

lemma planet_samples_total:
  assumes "profiles \<noteq> []"
  shows "\<exists>ss. planet_samples n r profiles = Inr (ss, sdrop (3 * n) r) \<and> length ss = n"
proof (induction n arbitrary: r)
  case 0
  then show ?case by simp
next
  case (Suc n)
  obtain v where v: "planet_sample r profiles = Inr (v, sdrop 3 r)"
    using planet_sample_total [OF assms] by blast
  obtain ss where ss: "planet_samples n (sdrop 3 r) profiles = Inr (ss, sdrop (3 * n) (sdrop 3 r))"
    "length ss = n"
    using Suc.IH by blast
  have "sdrop (3 * n) (sdrop 3 r) = sdrop (3 * Suc n) r"
    by simp
  with v ss show ?case by simp
qed

lemma tile_weights_loop_spec:
  assumes "profiles \<noteq> []"
  shows "\<exists>tw. tile_weights_loop tiles r profiles = Inr (tw, sdrop (90 * length tiles) r)
           \<and> length tw = length tiles
           \<and> (\<forall>i < length tiles. \<exists>samples.
                 planet_samples 30 (sdrop (90 * i) r) profiles
                   = Inr (samples, sdrop (90 * i + 90) r)
               \<and> length samples = 30
               \<and> tw ! i = (fst (tiles ! i), empirical_weight (snd (tiles ! i)) samples))"
proof (induction tiles arbitrary: r)
  case Nil
  then show ?case by simp
next
  case (Cons nt tiles)
  obtain n tile where nt: "nt = (n, tile)" by (cases nt)
  obtain ss where ss: "planet_samples 30 r profiles = Inr (ss, sdrop 90 r)" "length ss = 30"
    using planet_samples_total [OF assms, of 30 r] by auto
  obtain tw where tw: "tile_weights_loop tiles (sdrop 90 r) profiles
      = Inr (tw, sdrop (90 * length tiles) (sdrop 90 r))"
    "length tw = length tiles"
    "\<forall>i < length tiles. \<exists>samples.
        planet_samples 30 (sdrop (90 * i) (sdrop 90 r)) profiles
          = Inr (samples, sdrop (90 * i + 90) (sdrop 90 r))
      \<and> length samples = 30
      \<and> tw ! i = (fst (tiles ! i), empirical_weight (snd (tiles ! i)) samples)"
    using Cons.IH [of "sdrop 90 r"] by blast
  let ?tw = "(n, empirical_weight tile ss) # tw"
  have drop: "\<And>k. sdrop k (sdrop 90 r) = sdrop (k + 90) r"
    by (simp add: add.commute)
  have run: "tile_weights_loop (nt # tiles) r profiles = Inr (?tw, sdrop (90 * length (nt # tiles)) r)"
    using ss tw(1) by (simp add: nt drop)
  have each: "\<exists>samples.
        planet_samples 30 (sdrop (90 * i) r) profiles = Inr (samples, sdrop (90 * i + 90) r)
      \<and> length samples = 30
      \<and> ?tw ! i = (fst ((nt # tiles) ! i), empirical_weight (snd ((nt # tiles) ! i)) samples)"
    if "i < length (nt # tiles)" for i
  proof (cases i)
    case 0
    with ss show ?thesis by (simp add: nt)
  next
    case (Suc j)
    with that have "j < length tiles" by simp
    with tw(3) obtain samples where
      "planet_samples 30 (sdrop (90 * j) (sdrop 90 r)) profiles
          = Inr (samples, sdrop (90 * j + 90) (sdrop 90 r))"
      "length samples = 30"
      "tw ! j = (fst (tiles ! j), empirical_weight (snd (tiles ! j)) samples)"
      by blast
    then show ?thesis by (simp add: Suc drop)
  qed
  from run tw(2) each show ?case by (intro exI [of _ ?tw]) simp
qed

lemma empirical_weight_floor:
  assumes "0 < tile_weight tile"
  shows "5 / 100 * tile_weight tile \<le> empirical_weight tile samples"
    and "0 < empirical_weight tile samples"
proof -
  let ?m = "max (5 / 100) (real (matches tile samples) / real (length samples))"
  have "(5 / 100 :: real) \<le> ?m"
    by (rule max.cobounded1)
  with assms have "tile_weight tile * (5 / 100) \<le> tile_weight tile * ?m"
    by (intro mult_left_mono) simp_all
  then show le: "5 / 100 * tile_weight tile \<le> empirical_weight tile samples"
    unfolding empirical_weight_def by (simp only: mult.commute [of "5 / 100"])
  from assms have "0 < 5 / 100 * tile_weight tile" by simp
  with le show "0 < empirical_weight tile samples"
    by linarith
qed

lemma TILE_TYPES_weights_pos: "\<forall>nt \<in> set TILE_TYPES. 0 < tile_weight (snd nt)"
  by (simp add: TILE_TYPES_def)

lemma length_TILE_TYPES: "length TILE_TYPES = 6"
  by (simp add: TILE_TYPES_def)

lemma distinct_tile_names: "distinct tile_names"
  by (simp add: tile_names_def TILE_TYPES_def)

lemma initial_tile_weights_ok:
  assumes "profiles \<noteq> []"
  shows "\<exists>tw. initial_tile_weights r profiles = Inr (tw, sdrop 540 r)
           \<and> map fst tw = tile_names
           \<and> (\<forall>nw \<in> set tw. 0 < snd nw)"
proof -
  obtain tw where tw: "tile_weights_loop TILE_TYPES r profiles = Inr (tw, sdrop (90 * length TILE_TYPES) r)"
    "length tw = length TILE_TYPES"
    "\<forall>i < length TILE_TYPES. \<exists>samples.
        planet_samples 30 (sdrop (90 * i) r) profiles = Inr (samples, sdrop (90 * i + 90) r)
      \<and> length samples = 30
      \<and> tw ! i = (fst (TILE_TYPES ! i), empirical_weight (snd (TILE_TYPES ! i)) samples)"
    using tile_weights_loop_spec [OF assms, of TILE_TYPES r] by blast
  have names: "map fst tw = tile_names"
    unfolding tile_names_def
  proof (rule nth_equalityI)
    show "length (map fst tw) = length (map fst TILE_TYPES)" using tw(2) by simp
  next
    fix i assume "i < length (map fst tw)"
    then have i: "i < length TILE_TYPES" using tw(2) by simp
    with tw(3) have "fst (tw ! i) = fst (TILE_TYPES ! i)" by fastforce
    with i tw(2) show "map fst tw ! i = map fst TILE_TYPES ! i" by simp
  qed
  have pos: "0 < snd nw" if "nw \<in> set tw" for nw
  proof -
    from that obtain i where i: "i < length tw" "tw ! i = nw" by (auto simp: in_set_conv_nth)
    with tw(2,3) obtain samples where
      nw: "nw = (fst (TILE_TYPES ! i), empirical_weight (snd (TILE_TYPES ! i)) samples)"
      by fastforce
    from i tw(2) have "TILE_TYPES ! i \<in> set TILE_TYPES" by simp
    with TILE_TYPES_weights_pos have "0 < tile_weight (snd (TILE_TYPES ! i))" by blast
    then show ?thesis unfolding nw snd_conv by (rule empirical_weight_floor(2))
  qed
  from tw(1) names pos show ?thesis
    by (simp add: initial_tile_weights_def length_TILE_TYPES)
qed

lemma planet_samples_nth:
  assumes "profiles \<noteq> []"
  shows "planet_samples n r profiles = Inr (ss, r') \<Longrightarrow> k < n \<Longrightarrow>
     planet_sample (sdrop (3 * k) r) profiles = Inr (ss ! k, sdrop (3 * k + 3) r)"
proof (induction n arbitrary: r ss k)
  case 0
  then show ?case by simp
next
  case (Suc n)
  obtain v where v: "planet_sample r profiles = Inr (v, sdrop 3 r)"
    using planet_sample_total [OF assms] by blast
  with Suc.prems(1) obtain rest where
    rest: "planet_samples n (sdrop 3 r) profiles = Inr (rest, r')" and ss: "ss = v # rest"
    by (auto simp: and_then_eq_Inr)
  show ?case
  proof (cases k)
    case 0
    with v ss show ?thesis by simp
  next
    case (Suc j)
    with Suc.prems(2) have "j < n" by simp
    from Suc.IH [OF rest this] have
      "planet_sample (sdrop (3 * j) (sdrop 3 r)) profiles
         = Inr (rest ! j, sdrop (3 * j + 3) (sdrop 3 r))" .
    moreover have "sdrop (3 * j) (sdrop 3 r) = sdrop (3 * Suc j) r"
      "sdrop (3 * j + 3) (sdrop 3 r) = sdrop (3 * Suc j + 3) r"
      by (simp_all add: add.commute)
    ultimately show ?thesis using Suc ss by simp
  qed
qed

lemma matches_card:
  "matches tile samples
     = card {k. k < length samples \<and> fst (height_range tile) \<le> samples ! k
                \<and> samples ! k \<le> snd (height_range tile)}"
  unfolding matches_def by (rule length_filter_conv_card)


text \<open>
  C7. For every state of the random source and every non-empty profile list,
  \<^verbatim>\<open>_initial_tile_weights\<close> returns a table with one entry per catalog tile, in
  catalog order. For the \<open>i\<close>-th tile it draws 30 samples, the \<open>k\<close>-th of them the
  planet sample taken at draw \<open>90 i + 3 k\<close> of the source, and the entry is the tile's
  base weight times the larger of 0.05 and \<open>n / 30\<close>, where \<open>n\<close> is the number of
  positions \<open>k < 30\<close> whose sample \<open>s\<close> satisfies \<open>lo \<le> s \<le> hi\<close> for the tile's
  elevation range \<open>(lo, hi)\<close>. So every entry is at least 5% of the base weight and
  strictly positive.
\<close>

theorem initial_tile_weights_empirical:
  assumes "profiles \<noteq> []"
  shows "\<exists>tw. initial_tile_weights r profiles = Inr (tw, sdrop 540 r)
           \<and> map fst tw = tile_names
           \<and> (\<forall>i < length TILE_TYPES. \<exists>samples w.
                 planet_samples 30 (sdrop (90 * i) r) profiles
                   = Inr (samples, sdrop (90 * i + 90) r)
               \<and> length samples = 30
               \<and> (\<forall>k < 30. planet_sample (sdrop (90 * i + 3 * k) r) profiles
                              = Inr (samples ! k, sdrop (90 * i + 3 * k + 3) r))
               \<and> map_of tw (fst (TILE_TYPES ! i)) = Some w
               \<and> w = tile_weight (snd (TILE_TYPES ! i))
                       * max (5 / 100)
                           (real (card {k. k < 30
                                   \<and> fst (height_range (snd (TILE_TYPES ! i))) \<le> samples ! k
                                   \<and> samples ! k \<le> snd (height_range (snd (TILE_TYPES ! i)))})
                            / 30)
               \<and> 5 / 100 * tile_weight (snd (TILE_TYPES ! i)) \<le> w
               \<and> 0 < w)"
proof -
  obtain tw where tw: "tile_weights_loop TILE_TYPES r profiles = Inr (tw, sdrop (90 * length TILE_TYPES) r)"
    "length tw = length TILE_TYPES"
    "\<forall>i < length TILE_TYPES. \<exists>samples.
        planet_samples 30 (sdrop (90 * i) r) profiles = Inr (samples, sdrop (90 * i + 90) r)
      \<and> length samples = 30
      \<and> tw ! i = (fst (TILE_TYPES ! i), empirical_weight (snd (TILE_TYPES ! i)) samples)"
    using tile_weights_loop_spec [OF assms, of TILE_TYPES r] by blast
  obtain tw' where tw': "initial_tile_weights r profiles = Inr (tw', sdrop 540 r)"
    "map fst tw' = tile_names"
    using initial_tile_weights_ok [OF assms, of r] by blast
  from tw(1) tw'(1) have same: "tw' = tw" by (simp add: initial_tile_weights_def)
  have dist: "distinct (map fst tw)" using tw'(2) same distinct_tile_names by simp
  have each: "\<exists>samples w.
        planet_samples 30 (sdrop (90 * i) r) profiles = Inr (samples, sdrop (90 * i + 90) r)
      \<and> length samples = 30
      \<and> (\<forall>k < 30. planet_sample (sdrop (90 * i + 3 * k) r) profiles
                     = Inr (samples ! k, sdrop (90 * i + 3 * k + 3) r))
      \<and> map_of tw (fst (TILE_TYPES ! i)) = Some w
      \<and> w = tile_weight (snd (TILE_TYPES ! i))
              * max (5 / 100)
                  (real (card {k. k < 30
                          \<and> fst (height_range (snd (TILE_TYPES ! i))) \<le> samples ! k
                          \<and> samples ! k \<le> snd (height_range (snd (TILE_TYPES ! i)))})
                   / 30)
      \<and> 5 / 100 * tile_weight (snd (TILE_TYPES ! i)) \<le> w
      \<and> 0 < w"
    if i: "i < length TILE_TYPES" for i
  proof -
    let ?t = "snd (TILE_TYPES ! i)"
    from tw(3) i obtain samples where
      s: "planet_samples 30 (sdrop (90 * i) r) profiles = Inr (samples, sdrop (90 * i + 90) r)"
      "length samples = 30"
      "tw ! i = (fst (TILE_TYPES ! i), empirical_weight ?t samples)"
      by blast
    have one: "planet_sample (sdrop (90 * i + 3 * k) r) profiles
        = Inr (samples ! k, sdrop (90 * i + 3 * k + 3) r)" if "k < 30" for k
      using planet_samples_nth [OF assms s(1) that] by (simp add: add.assoc)
    from i tw(2) have "tw ! i \<in> set tw" by simp
    with s(3) dist have look: "map_of tw (fst (TILE_TYPES ! i)) = Some (empirical_weight ?t samples)"
      by simp
    from i have "TILE_TYPES ! i \<in> set TILE_TYPES" by simp
    with TILE_TYPES_weights_pos have pos: "0 < tile_weight ?t" by blast
    have formula: "empirical_weight ?t samples
        = tile_weight ?t * max (5 / 100)
            (real (card {k. k < 30 \<and> fst (height_range ?t) \<le> samples ! k
                            \<and> samples ! k \<le> snd (height_range ?t)}) / 30)"
      by (simp add: empirical_weight_def matches_card s(2))
    from s(1,2) one look empirical_weight_floor [OF pos, of samples] show ?thesis
      unfolding formula
      by (intro exI [of _ samples] exI [of _ "empirical_weight ?t samples"]) (simp add: formula)
  qed
  from tw'(1) tw'(2) same each show ?thesis by blast
qed

theorem initial_tile_weights_empirical_witness:
  "PLANET_PROFILES \<noteq> []
   \<and> (\<exists>tw. initial_tile_weights (sconst (Draw 0 0 0)) PLANET_PROFILES
              = Inr (tw, sconst (Draw 0 0 0))
        \<and> map_of tw ''ocean'' = Some (5 / 100)
        \<and> map_of tw ''lowland'' = Some (14 / 10))"
proof -
  let ?r = "sconst (Draw 0 0 0)"
  have h: "PLANET_PROFILES \<noteq> []" by (simp add: PLANET_PROFILES_def)
  have sample: "planet_sample ?r PLANET_PROFILES = Inr (v, r') \<Longrightarrow> v = 200" for v r'
    by (simp add: planet_sample_def uniform_def gauss_def PLANET_PROFILES_def py_index_def Let_def)
  from initial_tile_weights_empirical [OF h, of ?r] obtain tw where
    tw: "initial_tile_weights ?r PLANET_PROFILES = Inr (tw, sdrop 540 ?r)"
    and each: "\<forall>i < length TILE_TYPES. \<exists>samples w.
          planet_samples 30 (sdrop (90 * i) ?r) PLANET_PROFILES
            = Inr (samples, sdrop (90 * i + 90) ?r)
        \<and> length samples = 30
        \<and> (\<forall>k < 30. planet_sample (sdrop (90 * i + 3 * k) ?r) PLANET_PROFILES
                       = Inr (samples ! k, sdrop (90 * i + 3 * k + 3) ?r))
        \<and> map_of tw (fst (TILE_TYPES ! i)) = Some w
        \<and> w = tile_weight (snd (TILE_TYPES ! i))
                * max (5 / 100)
                    (real (card {k. k < 30
                            \<and> fst (height_range (snd (TILE_TYPES ! i))) \<le> samples ! k
                            \<and> samples ! k \<le> snd (height_range (snd (TILE_TYPES ! i)))})
                     / 30)
        \<and> 5 / 100 * tile_weight (snd (TILE_TYPES ! i)) \<le> w
        \<and> 0 < w"
    by (elim exE conjE) (rule that, assumption+)
  have entry: "\<exists>samples. (\<forall>k < 30. samples ! k = 200)
        \<and> map_of tw (fst (TILE_TYPES ! i))
            = Some (tile_weight (snd (TILE_TYPES ! i))
                * max (5 / 100)
                    (real (card {k. k < 30
                            \<and> fst (height_range (snd (TILE_TYPES ! i))) \<le> samples ! k
                            \<and> samples ! k \<le> snd (height_range (snd (TILE_TYPES ! i)))})
                     / 30))"
    if "i < length TILE_TYPES" for i
  proof -
    from each that obtain samples w where
      a: "\<forall>k < 30. planet_sample (sdrop (90 * i + 3 * k) ?r) PLANET_PROFILES
                       = Inr (samples ! k, sdrop (90 * i + 3 * k + 3) ?r)"
      and b: "map_of tw (fst (TILE_TYPES ! i)) = Some w"
      and c: "w = tile_weight (snd (TILE_TYPES ! i))
                * max (5 / 100)
                    (real (card {k. k < 30
                            \<and> fst (height_range (snd (TILE_TYPES ! i))) \<le> samples ! k
                            \<and> samples ! k \<le> snd (height_range (snd (TILE_TYPES ! i)))})
                     / 30)"
      by blast
    have vals: "samples ! k = 200" if "k < 30" for k
    proof -
      from a that have "planet_sample ?r PLANET_PROFILES = Inr (samples ! k, ?r)" by simp
      then show ?thesis by (rule sample)
    qed
    show ?thesis
    proof (intro exI [of _ samples] conjI)
      show "\<forall>k < 30. samples ! k = 200" using vals by blast
      show "map_of tw (fst (TILE_TYPES ! i))
          = Some (tile_weight (snd (TILE_TYPES ! i))
              * max (5 / 100)
                  (real (card {k. k < 30
                          \<and> fst (height_range (snd (TILE_TYPES ! i))) \<le> samples ! k
                          \<and> samples ! k \<le> snd (height_range (snd (TILE_TYPES ! i)))})
                   / 30))"
        using b unfolding c .
    qed
  qed
  have t0: "0 < length TILE_TYPES" "fst (TILE_TYPES ! 0) = ''ocean''"
    "tile_weight (snd (TILE_TYPES ! 0)) = 1" "height_range (snd (TILE_TYPES ! 0)) = (- 6000, - 200)"
    by (simp_all add: TILE_TYPES_def)
  from entry [OF t0(1)] obtain s0 where
    s0: "\<forall>k < 30. s0 ! k = 200"
    and e0: "map_of tw (fst (TILE_TYPES ! 0))
        = Some (tile_weight (snd (TILE_TYPES ! 0))
            * max (5 / 100)
                (real (card {k. k < 30
                        \<and> fst (height_range (snd (TILE_TYPES ! 0))) \<le> s0 ! k
                        \<and> s0 ! k \<le> snd (height_range (snd (TILE_TYPES ! 0)))})
                 / 30))"
    by (elim exE conjE) (rule that, assumption+)
  from s0 have "{k. k < 30 \<and> - 6000 \<le> s0 ! k \<and> s0 ! k \<le> - 200} = {}" by auto
  then have c0: "card {k. k < 30 \<and> - 6000 \<le> s0 ! k \<and> s0 ! k \<le> - 200} = 0"
    by (simp only: card.empty)
  from e0 have w0: "map_of tw ''ocean'' = Some (5 / 100)"
    unfolding t0 fst_conv snd_conv c0 by simp
  have t2: "2 < length TILE_TYPES" "fst (TILE_TYPES ! 2) = ''lowland''"
    "tile_weight (snd (TILE_TYPES ! 2)) = 14 / 10" "height_range (snd (TILE_TYPES ! 2)) = (0, 800)"
    by (simp_all add: TILE_TYPES_def)
  from entry [OF t2(1)] obtain s2 where
    s2: "\<forall>k < 30. s2 ! k = 200"
    and e2: "map_of tw (fst (TILE_TYPES ! 2))
        = Some (tile_weight (snd (TILE_TYPES ! 2))
            * max (5 / 100)
                (real (card {k. k < 30
                        \<and> fst (height_range (snd (TILE_TYPES ! 2))) \<le> s2 ! k
                        \<and> s2 ! k \<le> snd (height_range (snd (TILE_TYPES ! 2)))})
                 / 30))"
    by (elim exE conjE) (rule that, assumption+)
  from s2 have "{k. k < 30 \<and> 0 \<le> s2 ! k \<and> s2 ! k \<le> 800} = {..<30}" by auto
  then have c2: "card {k. k < 30 \<and> 0 \<le> s2 ! k \<and> s2 ! k \<le> 800} = 30"
    by (simp only: card_lessThan)
  from e2 have w2: "map_of tw ''lowland'' = Some (14 / 10)"
    unfolding t2 fst_conv snd_conv c2 by simp
  from h tw w0 w2 show ?thesis by simp
qed

section \<open>The WFC solver\<close>

text \<open>
  A cell is a Python set of tile names: a finite set. Python does not fix the order in
  which a set of strings is iterated (it follows the strings' hashes, which are salted per
  process), so the order is a parameter \<open>ord\<close> of the model: \<open>ord c\<close> is the list
  \<^verbatim>\<open>for name in c\<close> runs through.
\<close>

type_synonym cell = "string fset"

type_synonym grid = "cell list list"

type_synonym set_order = "string fset \<Rightarrow> string list"

text \<open>\<^verbatim>\<open>grid[y][x]\<close> and \<^verbatim>\<open>grid[y][x] = v\<close>. Rows are distinct list objects.\<close>

definition grid_get :: "'a list list \<Rightarrow> int \<Rightarrow> int \<Rightarrow> error + 'a" where
  "grid_get g x y = and_then (py_index g y) (\<lambda>row. py_index row x)"

definition grid_set :: "'a list list \<Rightarrow> int \<Rightarrow> int \<Rightarrow> 'a \<Rightarrow> error + 'a list list" where
  "grid_set g x y v =
     and_then (py_index g y) (\<lambda>row.
     and_then (py_store row x v) (\<lambda>row'. py_store g y row'))"

definition neighbors :: "int \<Rightarrow> int \<Rightarrow> int \<Rightarrow> int \<Rightarrow> (int \<times> int) list" where
  "neighbors x y width height =
     filter (\<lambda>(nx, ny). 0 \<le> nx \<and> nx < width \<and> 0 \<le> ny \<and> ny < height)
       (map (\<lambda>(dx, dy). (x + dx, y + dy)) [(1, 0), (- 1, 0), (0, 1), (0, - 1)])"

text \<open>\<^verbatim>\<open>[(name, tile_weights[name]) for name in options]\<close>: KeyError for a missing name.\<close>

fun weight_items :: "(string \<times> real) list \<Rightarrow> string list \<Rightarrow> error + (string \<times> real) list" where
  "weight_items tw [] = Inr []"
| "weight_items tw (n # ns) =
     (case map_of tw n of
        None \<Rightarrow> Inl KeyError
      | Some w \<Rightarrow> and_then (weight_items tw ns) (\<lambda>rest. Inr ((n, w) # rest)))"

text \<open>
  \<^verbatim>\<open>sum((w / total) * math.log(w / total) for w in weights if w > 0)\<close>: the division
  raises ZeroDivisionError for \<open>total = 0\<close>, the logarithm ValueError for an argument
  that is not positive.
\<close>

fun entropy_sum :: "real \<Rightarrow> real list \<Rightarrow> error + real" where
  "entropy_sum tot [] = Inr 0"
| "entropy_sum tot (w # ws) =
     (if w > 0 then
        (if tot = 0 then Inl ZeroDivisionError
         else if w / tot \<le> 0 then Inl ValueError
         else and_then (entropy_sum tot ws) (\<lambda>rest. Inr ((w / tot) * ln (w / tot) + rest)))
      else entropy_sum tot ws)"

definition entropy :: "set_order \<Rightarrow> (string \<times> real) list \<Rightarrow> cell \<Rightarrow> error + real" where
  "entropy ord tw c =
     (if fcard c \<le> 1 then Inr 0
      else and_then (weight_items tw (ord c)) (\<lambda>items.
           let weights = map snd items; total = sum_list weights
           in and_then (entropy_sum total weights) (\<lambda>s. Inr (- s))))"

text \<open>The scan that builds \<^verbatim>\<open>candidates\<close>: rows in order, cells in order within a row.\<close>

fun scan_row ::
  "set_order \<Rightarrow> (string \<times> real) list \<Rightarrow> grid \<Rightarrow> int \<Rightarrow> int list \<Rightarrow> error + (int \<times> int \<times> real) list" where
  "scan_row ord tw g y [] = Inr []"
| "scan_row ord tw g y (x # xs) =
     and_then (grid_get g x y) (\<lambda>c.
       if fcard c > 1 then
         and_then (entropy ord tw c) (\<lambda>e.
         and_then (scan_row ord tw g y xs) (\<lambda>rest. Inr ((x, y, e) # rest)))
       else scan_row ord tw g y xs)"

fun scan_rows ::
  "set_order \<Rightarrow> (string \<times> real) list \<Rightarrow> grid \<Rightarrow> int \<Rightarrow> int list \<Rightarrow> error + (int \<times> int \<times> real) list" where
  "scan_rows ord tw g width [] = Inr []"
| "scan_rows ord tw g width (y # ys) =
     and_then (scan_row ord tw g y [0..width - 1]) (\<lambda>row.
     and_then (scan_rows ord tw g width ys) (\<lambda>rest. Inr (row @ rest)))"

text \<open>
  \<^verbatim>\<open>allowed = set(); for option in current_options:
  allowed.update(TILE_TYPES[option].allowed_neighbors)\<close>.
\<close>

fun allowed_loop :: "string list \<Rightarrow> cell \<Rightarrow> error + cell" where
  "allowed_loop [] allowed = Inr allowed"
| "allowed_loop (option # rest) allowed =
     and_then (tile_type option) (\<lambda>t.
       allowed_loop rest (allowed |\<union>| fset_of_list (allowed_neighbors t)))"

text \<open>
  The loop over \<^verbatim>\<open>_neighbors(cx, cy, width, height)\<close>. The stack is a list with its top
  at the head (\<^verbatim>\<open>append\<close> is \<open>#\<close>, \<^verbatim>\<open>pop\<close> takes the head). \<open>hist\<close> is a ghost
  variable: every grid the solver has had, the newest first; it is extended at each
  assignment to the grid and never read.
\<close>

fun visit_neighbors ::
  "cell \<Rightarrow> grid \<Rightarrow> (int \<times> int) list \<Rightarrow> grid list \<Rightarrow> (int \<times> int) list
     \<Rightarrow> error + (grid \<times> (int \<times> int) list \<times> grid list)" where
  "visit_neighbors allowed g stack hist [] = Inr (g, stack, hist)"
| "visit_neighbors allowed g stack hist ((nx, ny) # ns) =
     and_then (grid_get g nx ny) (\<lambda>before.
       let after = before |\<inter>| allowed
       in if after \<noteq> before \<and> after \<noteq> {||} then
            and_then (grid_set g nx ny after) (\<lambda>g'.
              visit_neighbors allowed g' ((nx, ny) # stack) (g' # hist) ns)
          else visit_neighbors allowed g stack hist ns)"

text \<open>Sums over a grid, for the termination measures.\<close>

definition grid_sum :: "('a \<Rightarrow> nat) \<Rightarrow> 'a list list \<Rightarrow> nat" where
  "grid_sum f g = sum_list (map (\<lambda>row. sum_list (map f row)) g)"

definition uncollapsed :: "grid \<Rightarrow> nat" where
  "uncollapsed g = grid_sum (\<lambda>c. if 1 < fcard c then 1 else 0) g"

lemma py_index_store:
  assumes "py_index xs i = Inr a" and "py_store xs i b = Inr xs'"
  shows "\<exists>k < length xs. xs ! k = a \<and> xs' = xs[k := b]"
proof -
  consider "0 \<le> i \<and> i < int (length xs)" | "i < 0 \<and> - int (length xs) \<le> i"
    using assms(1) by (auto simp: py_index_def split: if_splits)
  then show ?thesis
  proof cases
    case 1
    with assms show ?thesis
      by (intro exI [of _ "nat i"]) (auto simp: py_index_def py_store_def)
  next
    case 2
    with assms show ?thesis
      by (intro exI [of _ "nat (int (length xs) + i)"]) (auto simp: py_index_def py_store_def)
  qed
qed

lemma sum_list_map_update:
  fixes f :: "'a \<Rightarrow> nat"
  assumes "k < length xs"
  shows "sum_list (map f (xs[k := b])) + f (xs ! k) = sum_list (map f xs) + f b"
  using assms
proof (induction xs arbitrary: k)
  case Nil
  then show ?case by simp
next
  case (Cons x xs)
  then show ?case by (cases k) auto
qed

lemma grid_get_set:
  assumes "grid_get g x y = Inr a" and "grid_set g x y b = Inr g'"
  shows "\<exists>j < length g. \<exists>k < length (g ! j). g ! j ! k = a \<and> g' = g[j := (g ! j)[k := b]]"
proof -
  from assms(1) obtain row where row: "py_index g y = Inr row" "py_index row x = Inr a"
    by (auto simp: grid_get_def and_then_eq_Inr)
  from assms(2) row(1) obtain row' where row': "py_store row x b = Inr row'" "py_store g y row' = Inr g'"
    by (auto simp: grid_set_def and_then_eq_Inr)
  from py_index_store [OF row(2) row'(1)] obtain k where
    k: "k < length row" "row ! k = a" "row' = row[k := b]" by blast
  from py_index_store [OF row(1) row'(2)] obtain j where
    j: "j < length g" "g ! j = row" "g' = g[j := row']" by blast
  from j k show ?thesis by blast
qed

lemma grid_sum_update:
  assumes "j < length g" and "k < length (g ! j)"
  shows "grid_sum f (g[j := (g ! j)[k := b]]) + f (g ! j ! k) = grid_sum f g + f b"
proof -
  let ?rs = "\<lambda>row. sum_list (map f row)"
  have row: "?rs ((g ! j)[k := b]) + f (g ! j ! k) = ?rs (g ! j) + f b"
    using assms(2) by (rule sum_list_map_update)
  have "sum_list (map ?rs (g[j := (g ! j)[k := b]])) + ?rs (g ! j)
      = sum_list (map ?rs g) + ?rs ((g ! j)[k := b])"
    using assms(1) by (rule sum_list_map_update)
  with row show ?thesis unfolding grid_sum_def by linarith
qed

lemma grid_sum_get_set:
  assumes "grid_get g x y = Inr a" and "grid_set g x y b = Inr g'"
  shows "grid_sum f g' + f a = grid_sum f g + f b"
proof -
  from grid_get_set [OF assms] obtain j k where
    "j < length g" "k < length (g ! j)" "g ! j ! k = a" "g' = g[j := (g ! j)[k := b]]" by blast
  with grid_sum_update [of j g k f b] show ?thesis by simp
qed

lemma visit_neighbors_measure:
  assumes "visit_neighbors allowed g stack hist ns = Inr (g', stack', hist')"
  shows "(g' = g \<and> stack' = stack \<and> hist' = hist) \<or> grid_sum fcard g' < grid_sum fcard g"
  using assms
proof (induction ns arbitrary: g stack hist)
  case Nil
  then show ?case by simp
next
  case (Cons n ns)
  obtain nx ny where n: "n = (nx, ny)" by (cases n)
  from Cons.prems obtain before where before: "grid_get g nx ny = Inr before"
    by (auto simp: n and_then_eq_Inr)
  let ?after = "before |\<inter>| allowed"
  show ?case
  proof (cases "?after \<noteq> before \<and> ?after \<noteq> {||}")
    case True
    with Cons.prems before obtain g1 where
      g1: "grid_set g nx ny ?after = Inr g1"
      and rest: "visit_neighbors allowed g1 ((nx, ny) # stack) (g1 # hist) ns = Inr (g', stack', hist')"
      by (auto simp: n and_then_eq_Inr Let_def)
    from True have "?after |\<subset>| before" by auto
    then have "fcard ?after < fcard before" by (rule pfsubset_fcard_mono)
    with grid_sum_get_set [OF before g1, of fcard] have "grid_sum fcard g1 < grid_sum fcard g"
      by linarith
    with Cons.IH [OF rest] show ?thesis by auto
  next
    case False
    with Cons.prems before have "visit_neighbors allowed g stack hist ns = Inr (g', stack', hist')"
      by (auto simp: n Let_def)
    from Cons.IH [OF this] show ?thesis .
  qed
qed

text \<open>
  One round of the propagation loop \<^verbatim>\<open>while stack:\<close>, after \<^verbatim>\<open>stack.pop()\<close> gave
  \<open>(cx, cy)\<close>: the union of the allowed neighbours of the popped cell's candidates,
  then the loop over its neighbours.
\<close>

definition propagate_round ::
  "set_order \<Rightarrow> int \<Rightarrow> int \<Rightarrow> grid \<Rightarrow> int \<Rightarrow> int \<Rightarrow> (int \<times> int) list \<Rightarrow> grid list
     \<Rightarrow> error + (grid \<times> (int \<times> int) list \<times> grid list)" where
  "propagate_round ord width height g cx cy stack hist =
     and_then (grid_get g cx cy) (\<lambda>current_options.
     and_then (allowed_loop (ord current_options) {||}) (\<lambda>allowed.
       visit_neighbors allowed g stack hist (neighbors cx cy width height)))"

lemma propagate_round_measure:
  assumes "propagate_round ord width height g cx cy stack hist = Inr (g', stack', hist')"
  shows "(g' = g \<and> stack' = stack \<and> hist' = hist) \<or> grid_sum fcard g' < grid_sum fcard g"
proof -
  from assms obtain allowed where
    "visit_neighbors allowed g stack hist (neighbors cx cy width height) = Inr (g', stack', hist')"
    by (auto simp: propagate_round_def and_then_eq_Inr)
  then show ?thesis by (rule visit_neighbors_measure)
qed

text \<open>
  The propagation loop. It ends because each round either shrinks a cell or shortens the
  stack.
\<close>

function propagate ::
  "set_order \<Rightarrow> int \<Rightarrow> int \<Rightarrow> grid \<Rightarrow> (int \<times> int) list \<Rightarrow> grid list \<Rightarrow> error + (grid \<times> grid list)" where
  "propagate ord width height g [] hist = Inr (g, hist)"
| "propagate ord width height g ((cx, cy) # stack) hist =
     and_then (propagate_round ord width height g cx cy stack hist)
       (\<lambda>(g', stack', hist'). propagate ord width height g' stack' hist')"
  by pat_completeness auto
termination
proof (relation "inv_image (less_than <*lex*> less_than)
    (\<lambda>(ord, width, height, g, stack, hist). (grid_sum fcard g, length stack))", goal_cases)
  case 1
  show ?case by (intro wf_inv_image wf_lex_prod wf_less_than)
next
  case (2 ord width height g cx cy stack hist res g' rest stack' hist')
  then have "propagate_round ord width height g cx cy stack hist = Inr (g', stack', hist')"
    by simp
  from propagate_round_measure [OF this] show ?case by auto
qed

lemma scan_row_candidates:
  assumes "scan_row ord tw g y xs = Inr cands" and "(x, y', e) \<in> set cands"
  shows "y' = y \<and> x \<in> set xs \<and> (\<exists>c. grid_get g x y = Inr c \<and> 1 < fcard c)"
  using assms
proof (induction xs arbitrary: cands)
  case Nil
  then show ?case by simp
next
  case (Cons a xs)
  from Cons.prems(1) obtain c where c: "grid_get g a y = Inr c"
    by (auto simp: and_then_eq_Inr)
  show ?case
  proof (cases "1 < fcard c")
    case True
    with Cons.prems(1) c obtain en rest where
      rest: "scan_row ord tw g y xs = Inr rest" "cands = (a, y, en) # rest"
      by (auto simp: and_then_eq_Inr)
    with Cons.prems(2) consider "(x, y', e) = (a, y, en)" | "(x, y', e) \<in> set rest" by auto
    then show ?thesis
    proof cases
      case 1
      with c True show ?thesis by auto
    next
      case 2
      with Cons.IH [OF rest(1)] show ?thesis by auto
    qed
  next
    case False
    with Cons.prems(1) c have "scan_row ord tw g y xs = Inr cands" by simp
    with Cons.IH Cons.prems(2) show ?thesis by auto
  qed
qed

lemma scan_rows_candidates:
  assumes "scan_rows ord tw g width ys = Inr cands" and "(x, y, e) \<in> set cands"
  shows "y \<in> set ys \<and> 0 \<le> x \<and> x < width \<and> (\<exists>c. grid_get g x y = Inr c \<and> 1 < fcard c)"
  using assms
proof (induction ys arbitrary: cands)
  case Nil
  then show ?case by simp
next
  case (Cons a ys)
  from Cons.prems(1) obtain row rest where
    row: "scan_row ord tw g a [0..width - 1] = Inr row"
    and rest: "scan_rows ord tw g width ys = Inr rest"
    and cands: "cands = row @ rest"
    by (auto simp: and_then_eq_Inr)
  from Cons.prems(2) cands consider "(x, y, e) \<in> set row" | "(x, y, e) \<in> set rest" by auto
  then show ?case
  proof cases
    case 1
    from scan_row_candidates [OF row 1] show ?thesis by auto
  next
    case 2
    from Cons.IH [OF rest 2] show ?thesis by auto
  qed
qed

lemma choice_member: "choice r xs = Inr (v, r') \<Longrightarrow> v \<in> set xs \<and> r' = stl r"
  by (auto simp: choice_def split: if_splits)

lemma visit_neighbors_uncollapsed:
  assumes "visit_neighbors allowed g stack hist ns = Inr (g', stack', hist')"
  shows "uncollapsed g' \<le> uncollapsed g"
  using assms
proof (induction ns arbitrary: g stack hist)
  case Nil
  then show ?case by simp
next
  case (Cons n ns)
  obtain nx ny where n: "n = (nx, ny)" by (cases n)
  from Cons.prems obtain before where before: "grid_get g nx ny = Inr before"
    by (auto simp: n and_then_eq_Inr)
  let ?after = "before |\<inter>| allowed"
  let ?f = "\<lambda>c :: cell. if 1 < fcard c then 1 else 0 :: nat"
  show ?case
  proof (cases "?after \<noteq> before \<and> ?after \<noteq> {||}")
    case True
    with Cons.prems before obtain g1 where
      g1: "grid_set g nx ny ?after = Inr g1"
      and rest: "visit_neighbors allowed g1 ((nx, ny) # stack) (g1 # hist) ns = Inr (g', stack', hist')"
      by (auto simp: n and_then_eq_Inr Let_def)
    have "fcard ?after \<le> fcard before" by (rule fcard_mono) simp
    then have "?f ?after \<le> ?f before" by simp
    with grid_sum_get_set [OF before g1, of ?f] have "uncollapsed g1 \<le> uncollapsed g"
      unfolding uncollapsed_def by linarith
    with Cons.IH [OF rest] show ?thesis by simp
  next
    case False
    with Cons.prems before have "visit_neighbors allowed g stack hist ns = Inr (g', stack', hist')"
      by (auto simp: n Let_def)
    from Cons.IH [OF this] show ?thesis .
  qed
qed

lemma propagate_round_uncollapsed:
  assumes "propagate_round ord width height g cx cy stack hist = Inr (g', stack', hist')"
  shows "uncollapsed g' \<le> uncollapsed g"
proof -
  from assms obtain allowed where
    "visit_neighbors allowed g stack hist (neighbors cx cy width height) = Inr (g', stack', hist')"
    by (auto simp: propagate_round_def and_then_eq_Inr)
  then show ?thesis by (rule visit_neighbors_uncollapsed)
qed

lemma propagate_uncollapsed:
  "propagate ord width height g stack hist = Inr (g', hist') \<Longrightarrow> uncollapsed g' \<le> uncollapsed g"
proof (induction ord width height g stack hist rule: propagate.induct)
  case (1 ord width height g hist)
  then show ?case by simp
next
  case (2 ord width height g cx cy stack hist)
  from "2.prems" obtain g1 stack1 hist1 where
    c: "propagate_round ord width height g cx cy stack hist = Inr (g1, stack1, hist1)"
    and d: "propagate ord width height g1 stack1 hist1 = Inr (g', hist')"
    by (auto simp: and_then_eq_Inr)
  from "2.IH" [OF c _ _ d] have "uncollapsed g' \<le> uncollapsed g1" by simp
  with propagate_round_uncollapsed [OF c] show ?case by simp
qed

lemma collapse_decreases:
  assumes "grid_get g x y = Inr c" and "1 < fcard c" and "grid_set g x y {|t|} = Inr g1"
  shows "uncollapsed g1 < uncollapsed g"
proof -
  let ?f = "\<lambda>c :: cell. if 1 < fcard c then 1 else 0 :: nat"
  have "fcard {|t|} = 1" by (simp add: fcard_finsert_if)
  with grid_sum_get_set [OF assms(1,3), of ?f] assms(2) show ?thesis
    unfolding uncollapsed_def by simp
qed

text \<open>
  One round of the main loop \<^verbatim>\<open>while True:\<close>, for a non-empty candidate list: the
  cells of least entropy, a uniform choice among them, the weighted choice of a tile,
  the collapse of the cell and the propagation from it.
\<close>

definition collapse_round ::
  "set_order \<Rightarrow> (string \<times> real) list \<Rightarrow> int \<Rightarrow> int \<Rightarrow> grid \<Rightarrow> rng \<Rightarrow> grid list
     \<Rightarrow> (int \<times> int \<times> real) list \<Rightarrow> error + (grid \<times> rng \<times> grid list)" where
  "collapse_round ord tw width height g r hist candidates =
     (let min_entropy = min_list (map (\<lambda>(x, y, e). e) candidates);
          low_entropy = filter (\<lambda>(x, y, e). e = min_entropy) candidates
      in and_then (choice r low_entropy) (\<lambda>((x, y, e), r1).
         and_then (grid_get g x y) (\<lambda>options.
         and_then (weight_items tw (ord options)) (\<lambda>items.
         and_then (weighted_choice r1 items) (\<lambda>(tile, r2).
         and_then (grid_set g x y {|tile|}) (\<lambda>g1.
         and_then (propagate ord width height g1 [(x, y)] (g1 # hist)) (\<lambda>(g2, hist2).
           Inr (g2, r2, hist2))))))))"

lemma collapse_round_decreases:
  assumes "scan_rows ord tw g width ys = Inr cands"
    and "collapse_round ord tw width height g r hist cands = Inr (g2, r2, hist2)"
  shows "uncollapsed g2 < uncollapsed g"
proof -
  from assms(2) obtain x y e r1 options tile g1 where
    pick: "choice r (filter (\<lambda>(x, y, e). e = min_list (map (\<lambda>(x, y, e). e) cands)) cands)
        = Inr ((x, y, e), r1)"
    and get: "grid_get g x y = Inr options"
    and set: "grid_set g x y {|tile|} = Inr g1"
    and spread: "propagate ord width height g1 [(x, y)] (g1 # hist) = Inr (g2, hist2)"
    by (auto simp: collapse_round_def Let_def and_then_eq_Inr)
  from choice_member [OF pick] have "(x, y, e) \<in> set cands" by auto
  from scan_rows_candidates [OF assms(1) this] obtain c where
    "grid_get g x y = Inr c" "1 < fcard c" by blast
  with get have "1 < fcard options" by simp
  from collapse_decreases [OF get this set] propagate_uncollapsed [OF spread]
  show ?thesis by simp
qed

text \<open>
  The main loop. \<open>iters\<close> is a ghost counter of its rounds (collapse events). The loop
  ends because each round makes one more cell a singleton and propagation never makes a
  singleton cell bigger.
\<close>

function solve_loop ::
  "set_order \<Rightarrow> (string \<times> real) list \<Rightarrow> int \<Rightarrow> int \<Rightarrow> grid \<Rightarrow> rng \<Rightarrow> grid list \<Rightarrow> nat
     \<Rightarrow> error + (grid \<times> rng \<times> grid list \<times> nat)" where
  "solve_loop ord tw width height g r hist iters =
     and_then (scan_rows ord tw g width [0..height - 1]) (\<lambda>candidates.
       if candidates = [] then Inr (g, r, hist, iters)
       else and_then (collapse_round ord tw width height g r hist candidates)
              (\<lambda>(g2, r2, hist2). solve_loop ord tw width height g2 r2 hist2 (Suc iters)))"
  by pat_completeness auto
termination
proof (relation "measure (\<lambda>(ord, tw, width, height, g, r, hist, iters). uncollapsed g)", goal_cases)
  case 1
  show ?case by simp
next
  case (2 ord tw width height g r hist iters cands res g2 rest r2 hist2)
  then have "collapse_round ord tw width height g r hist cands = Inr (g2, r2, hist2)" by simp
  from collapse_round_decreases [OF 2(1) this] show ?case by simp
qed

declare solve_loop.simps [simp del]

text \<open>
  \<^verbatim>\<open>[[set(TILE_TYPES.keys()) for _ in range(width)] for _ in range(height)]\<close>;
  \<^verbatim>\<open>range(n)\<close> is empty for \<open>n \<le> 0\<close>.
\<close>

definition vocabulary :: cell where
  "vocabulary = fset_of_list tile_names"

definition initial_grid :: "int \<Rightarrow> int \<Rightarrow> grid" where
  "initial_grid width height = replicate (nat height) (replicate (nat width) vocabulary)"

text \<open>
  The solver up to the end of its main loop, with the ghost history and round counter.
\<close>

definition solve ::
  "set_order \<Rightarrow> int \<Rightarrow> int \<Rightarrow> rng \<Rightarrow> PlanetProfile list
     \<Rightarrow> error + (grid \<times> rng \<times> grid list \<times> nat)" where
  "solve ord width height r profiles =
     and_then (initial_tile_weights r profiles) (\<lambda>(tw, r1).
       let g = initial_grid width height
       in solve_loop ord tw width height g r1 [g] 0)"

text \<open>\<^verbatim>\<open>next(iter(cell))\<close>: StopIteration on an empty set.\<close>

definition first_of :: "set_order \<Rightarrow> cell \<Rightarrow> error + string" where
  "first_of ord c = (case ord c of [] \<Rightarrow> Inl StopIteration | t # _ \<Rightarrow> Inr t)"

text \<open>A list comprehension whose element expression can raise.\<close>

fun map_err :: "('a \<Rightarrow> error + 'b) \<Rightarrow> 'a list \<Rightarrow> error + 'b list" where
  "map_err f [] = Inr []"
| "map_err f (x # xs) =
     and_then (f x) (\<lambda>v. and_then (map_err f xs) (\<lambda>vs. Inr (v # vs)))"

definition wave_function_collapse ::
  "set_order \<Rightarrow> int \<Rightarrow> int \<Rightarrow> rng \<Rightarrow> PlanetProfile list \<Rightarrow> error + (string list list \<times> rng)" where
  "wave_function_collapse ord width height r profiles =
     and_then (solve ord width height r profiles) (\<lambda>(g, r2, hist, iters).
     and_then (map_err (map_err (first_of ord)) g) (\<lambda>tiles. Inr (tiles, r2)))"

subsection \<open>Well-formed solver states\<close>

text \<open>
  An iteration order is valid when, for every set of tile names, it lists the members of
  the set.
\<close>

definition valid_order :: "set_order \<Rightarrow> bool" where
  "valid_order ord \<longleftrightarrow> (\<forall>c. c |\<subseteq>| vocabulary \<longrightarrow> set (ord c) = fset c)"

definition cell_ok :: "cell \<Rightarrow> bool" where
  "cell_ok c \<longleftrightarrow> c \<noteq> {||} \<and> c |\<subseteq>| vocabulary"

definition grid_ok :: "grid \<Rightarrow> bool" where
  "grid_ok g \<longleftrightarrow> (\<forall>row \<in> set g. \<forall>c \<in> set row. cell_ok c)"

definition has_dims :: "'a list list \<Rightarrow> int \<Rightarrow> int \<Rightarrow> bool" where
  "has_dims g width height \<longleftrightarrow>
     length g = nat height \<and> (\<forall>row \<in> set g. length row = nat width)"

definition in_grid :: "int \<Rightarrow> int \<Rightarrow> int \<times> int \<Rightarrow> bool" where
  "in_grid width height p \<longleftrightarrow> 0 \<le> fst p \<and> fst p < width \<and> 0 \<le> snd p \<and> snd p < height"

definition cell_at :: "'a list list \<Rightarrow> int \<times> int \<Rightarrow> 'a" where
  "cell_at g p = g ! nat (snd p) ! nat (fst p)"

definition put :: "'a list list \<Rightarrow> int \<times> int \<Rightarrow> 'a \<Rightarrow> 'a list list" where
  "put g p v = g[nat (snd p) := (g ! nat (snd p))[nat (fst p) := v]]"

definition weights_ok :: "(string \<times> real) list \<Rightarrow> bool" where
  "weights_ok tw \<longleftrightarrow> map fst tw = tile_names \<and> (\<forall>nw \<in> set tw. 0 < snd nw)"

lemma grid_get_in_grid:
  assumes "has_dims g width height" and "in_grid width height (x, y)"
  shows "grid_get g x y = Inr (cell_at g (x, y))"
proof -
  from assms have y: "0 \<le> y" "y < int (length g)" and "nat y < length g"
    by (auto simp: has_dims_def in_grid_def)
  then have "g ! nat y \<in> set g" by simp
  with assms have x: "0 \<le> x" "x < int (length (g ! nat y))"
    by (auto simp: has_dims_def in_grid_def)
  from x y show ?thesis by (simp add: grid_get_def py_index_def cell_at_def)
qed

lemma grid_set_in_grid:
  assumes "has_dims g width height" and "in_grid width height (x, y)"
  shows "grid_set g x y v = Inr (put g (x, y) v)"
proof -
  from assms have y: "0 \<le> y" "y < int (length g)" and "nat y < length g"
    by (auto simp: has_dims_def in_grid_def)
  then have "g ! nat y \<in> set g" by simp
  with assms have x: "0 \<le> x" "x < int (length (g ! nat y))"
    by (auto simp: has_dims_def in_grid_def)
  from x y show ?thesis by (simp add: grid_set_def py_index_def py_store_def put_def)
qed

lemma mem_fset_of_list [simp]: "x |\<in>| fset_of_list xs \<longleftrightarrow> x \<in> set xs"
  by (simp add: fset_of_list.rep_eq)

lemma has_dims_put:
  assumes "has_dims g width height"
  shows "has_dims (put g p v) width height"
proof -
  let ?j = "nat (snd p)"
  let ?row = "(g ! ?j)[nat (fst p) := v]"
  have "length row = nat width" if "row \<in> set (g[?j := ?row])" for row
  proof -
    from that have "row \<in> insert ?row (set g)"
      using set_update_subset_insert by fastforce
    moreover have "length ?row = nat width" if "?j < length g"
      using that assms by (simp add: has_dims_def)
    moreover have "g[?j := ?row] = g" if "\<not> ?j < length g"
      using that by (simp add: list_update_beyond)
    ultimately show ?thesis using assms that
      by (cases "?j < length g") (auto simp: has_dims_def)
  qed
  with assms show ?thesis by (simp add: has_dims_def put_def)
qed

lemma cell_at_put:
  assumes "has_dims g width height" and "in_grid width height p" and "in_grid width height q"
  shows "cell_at (put g p v) q = (if q = p then v else cell_at g q)"
proof -
  obtain x y where p: "p = (x, y)" by (cases p)
  obtain x' y' where q: "q = (x', y')" by (cases q)
  from assms have ly: "nat y < length g" "nat y' < length g"
    by (auto simp: has_dims_def in_grid_def p q)
  then have "g ! nat y \<in> set g" by simp
  with assms have lx: "nat x < length (g ! nat y)"
    by (auto simp: has_dims_def in_grid_def p)
  from assms have nn: "0 \<le> x" "0 \<le> y" "0 \<le> x'" "0 \<le> y'"
    by (auto simp: in_grid_def p q)
  show ?thesis
  proof (cases "y' = y")
    case True
    with ly lx nn show ?thesis
      by (auto simp: cell_at_def put_def p q nth_list_update)
  next
    case False
    with nn have "nat y' \<noteq> nat y" by simp
    with ly False show ?thesis
      by (auto simp: cell_at_def put_def p q nth_list_update)
  qed
qed

lemma grid_ok_cell_at:
  assumes "grid_ok g" and "has_dims g width height" and "in_grid width height p"
  shows "cell_ok (cell_at g p)"
proof -
  from assms(2,3) have y: "nat (snd p) < length g" by (auto simp: has_dims_def in_grid_def)
  then have row: "g ! nat (snd p) \<in> set g" by simp
  with assms(2,3) have "nat (fst p) < length (g ! nat (snd p))"
    by (auto simp: has_dims_def in_grid_def)
  then have "g ! nat (snd p) ! nat (fst p) \<in> set (g ! nat (snd p))" by simp
  with assms(1) row show ?thesis unfolding grid_ok_def cell_at_def by blast
qed

lemma grid_ok_put:
  assumes "grid_ok g" and "cell_ok v"
  shows "grid_ok (put g p v)"
  unfolding grid_ok_def put_def
proof (intro ballI)
  fix row c
  assume row: "row \<in> set (g[nat (snd p) := (g ! nat (snd p))[nat (fst p) := v]])"
    and c: "c \<in> set row"
  have "row \<in> set g \<or> row = (g ! nat (snd p))[nat (fst p) := v] \<and> nat (snd p) < length g"
  proof (cases "nat (snd p) < length g")
    case True
    from row have "row \<in> insert ((g ! nat (snd p))[nat (fst p) := v]) (set g)"
      using set_update_subset_insert by fastforce
    with True show ?thesis by auto
  next
    case False
    with row show ?thesis by (simp add: list_update_beyond)
  qed
  then show "cell_ok c"
  proof
    assume "row \<in> set g"
    with assms(1) c show ?thesis unfolding grid_ok_def by blast
  next
    assume r: "row = (g ! nat (snd p))[nat (fst p) := v] \<and> nat (snd p) < length g"
    then have "g ! nat (snd p) \<in> set g" by simp
    moreover from r c have "c = v \<or> c \<in> set (g ! nat (snd p))"
      by (auto dest: set_update_subset_insert [THEN subsetD])
    ultimately show ?thesis using assms unfolding grid_ok_def by blast
  qed
qed

lemma vocabulary_member: "n |\<in>| vocabulary \<longleftrightarrow> n \<in> set tile_names"
  by (simp add: vocabulary_def)

lemma valid_order_set:
  assumes "valid_order ord" and "cell_ok c"
  shows "set (ord c) = fset c" and "ord c \<noteq> []" and "set (ord c) \<subseteq> set tile_names"
proof -
  from assms show s: "set (ord c) = fset c" by (simp add: valid_order_def cell_ok_def)
  from assms(2) have "fset c \<noteq> {}" by (auto simp: cell_ok_def)
  with s show "ord c \<noteq> []" by auto
  from assms(2) s show "set (ord c) \<subseteq> set tile_names"
    by (auto simp: cell_ok_def vocabulary_member)
qed

lemma weight_items_ok:
  assumes "weights_ok tw" and "set ns \<subseteq> set tile_names"
  shows "\<exists>items. weight_items tw ns = Inr items \<and> map fst items = ns
           \<and> (\<forall>it \<in> set items. 0 < snd it)"
  using assms(2)
proof (induction ns)
  case Nil
  then show ?case by simp
next
  case (Cons n ns)
  then obtain items where items: "weight_items tw ns = Inr items" "map fst items = ns"
    "\<forall>it \<in> set items. 0 < snd it" by auto
  from assms(1) have "fst ` set tw = set tile_names" by (metis set_map weights_ok_def)
  with Cons.prems have "n \<in> fst ` set tw" by simp
  then obtain w where w: "map_of tw n = Some w"
    by (metis map_of_eq_None_iff not_Some_eq)
  then have "(n, w) \<in> set tw" by (rule map_of_SomeD)
  with assms(1) have "0 < w" by (auto simp: weights_ok_def)
  with items w show ?case by simp
qed

lemma entropy_sum_ok:
  assumes "0 < tot" and "\<forall>w \<in> set ws. 0 < w"
  shows "\<exists>s. entropy_sum tot ws = Inr s"
  using assms(2)
proof (induction ws)
  case Nil
  then show ?case by simp
next
  case (Cons w ws)
  then obtain s where "entropy_sum tot ws = Inr s" by auto
  moreover from Cons.prems have "0 < w" by simp
  moreover from this assms(1) have "\<not> w / tot \<le> 0" by (simp add: divide_le_0_iff)
  ultimately show ?case using assms(1) by (simp add: divide_le_0_iff)
qed

lemma sum_list_pos_weights:
  fixes ws :: "real list"
  assumes "ws \<noteq> []" and "\<forall>w \<in> set ws. 0 < w"
  shows "0 < sum_list ws"
  using assms
proof (induction ws)
  case Nil
  then show ?case by simp
next
  case (Cons w ws)
  then show ?case by (cases ws) (auto intro: add_pos_pos)
qed

lemma entropy_ok:
  assumes "valid_order ord" and "weights_ok tw" and "cell_ok c"
  shows "\<exists>e. entropy ord tw c = Inr e"
proof (cases "fcard c \<le> 1")
  case True
  then show ?thesis by (simp add: entropy_def)
next
  case False
  from valid_order_set [OF assms(1,3)] have ne: "ord c \<noteq> []" and sub: "set (ord c) \<subseteq> set tile_names"
    by simp_all
  from weight_items_ok [OF assms(2) sub] obtain items where
    items: "weight_items tw (ord c) = Inr items" "map fst items = ord c"
    "\<forall>it \<in> set items. 0 < snd it" by blast
  from items(2) ne have "map snd items \<noteq> []" by auto
  moreover from items(3) have pos: "\<forall>w \<in> set (map snd items). 0 < w" by auto
  ultimately have "0 < sum_list (map snd items)" by (rule sum_list_pos_weights)
  from entropy_sum_ok [OF this pos] obtain s where
    "entropy_sum (sum_list (map snd items)) (map snd items) = Inr s" by blast
  with False items(1) show ?thesis by (simp add: entropy_def Let_def)
qed

lemma tile_type_known: "n \<in> set tile_names \<Longrightarrow> \<exists>t. map_of TILE_TYPES n = Some t \<and> tile_type n = Inr t"
  unfolding tile_names_def tile_type_def
  by (cases "map_of TILE_TYPES n") (auto simp: map_of_eq_None_iff)

lemma allowed_loop_ok:
  assumes "set ns \<subseteq> set tile_names"
  shows "\<exists>a. allowed_loop ns acc = Inr a
           \<and> (\<forall>t. t |\<in>| a \<longleftrightarrow> t |\<in>| acc
                 \<or> (\<exists>n \<in> set ns. \<exists>tt. map_of TILE_TYPES n = Some tt \<and> t \<in> set (allowed_neighbors tt)))"
  using assms
proof (induction ns arbitrary: acc)
  case Nil
  then show ?case by simp
next
  case (Cons n ns)
  from Cons.prems have "n \<in> set tile_names" by simp
  from tile_type_known [OF this] obtain tt where
    tt: "map_of TILE_TYPES n = Some tt" "tile_type n = Inr tt" by blast
  from Cons.prems have "set ns \<subseteq> set tile_names" by simp
  from Cons.IH [OF this, of "acc |\<union>| fset_of_list (allowed_neighbors tt)"] obtain a where
    a: "allowed_loop ns (acc |\<union>| fset_of_list (allowed_neighbors tt)) = Inr a"
    "\<forall>t. t |\<in>| a \<longleftrightarrow> t |\<in>| acc |\<union>| fset_of_list (allowed_neighbors tt)
        \<or> (\<exists>n \<in> set ns. \<exists>tt. map_of TILE_TYPES n = Some tt \<and> t \<in> set (allowed_neighbors tt))"
    by blast
  from a(1) tt(2) have run: "allowed_loop (n # ns) acc = Inr a" by simp
  from a(2) tt(1) have "\<forall>t. t |\<in>| a \<longleftrightarrow> t |\<in>| acc
      \<or> (\<exists>m \<in> set (n # ns). \<exists>tt. map_of TILE_TYPES m = Some tt \<and> t \<in> set (allowed_neighbors tt))"
    by auto
  with run show ?case by blast
qed

subsection \<open>The solver keeps its state well formed\<close>

text \<open>
  \<open>no_growth old new\<close>: the two grids have the same shape and every cell of \<open>new\<close>
  is a subset of, and no bigger than, the cell of \<open>old\<close> at the same place.
\<close>

definition no_growth :: "grid \<Rightarrow> grid \<Rightarrow> bool" where
  "no_growth old new \<longleftrightarrow>
     length new = length old
     \<and> (\<forall>y < length old. length (new ! y) = length (old ! y)
          \<and> (\<forall>x < length (old ! y).
                new ! y ! x |\<subseteq>| old ! y ! x \<and> fcard (new ! y ! x) \<le> fcard (old ! y ! x)))"

text \<open>
  The history \<open>hist\<close> belongs to the current grid \<open>g\<close>: \<open>g\<close> is its newest entry,
  every entry has only non-empty cells of tile names, and no cell grows from an entry to
  the next newer one.
\<close>

definition trace_ok :: "grid \<Rightarrow> grid list \<Rightarrow> bool" where
  "trace_ok g hist \<longleftrightarrow>
     hist \<noteq> [] \<and> hd hist = g \<and> (\<forall>h \<in> set hist. grid_ok h)
     \<and> successively (\<lambda>newer older. no_growth older newer) hist"

definition state_ok :: "int \<Rightarrow> int \<Rightarrow> grid \<Rightarrow> grid list \<Rightarrow> bool" where
  "state_ok width height g hist \<longleftrightarrow> has_dims g width height \<and> grid_ok g \<and> trace_ok g hist"

lemma nth_list_update_if: "xs[i := x] ! j = (if i = j \<and> i < length xs then x else xs ! j)"
  by (cases "i < length xs") (auto simp: list_update_beyond)

lemma no_growth_put:
  assumes "v |\<subseteq>| cell_at g p"
  shows "no_growth g (put g p v)"
proof -
  let ?j = "nat (snd p)" and ?k = "nat (fst p)"
  have "(put g p v) ! y ! x |\<subseteq>| g ! y ! x" if "y < length g" "x < length (g ! y)" for x y
    using that assms by (auto simp: put_def cell_at_def nth_list_update_if)
  moreover have "length ((put g p v) ! y) = length (g ! y)" if "y < length g" for y
    using that by (auto simp: put_def nth_list_update_if)
  ultimately show ?thesis
    unfolding no_growth_def by (auto simp: put_def intro: fcard_mono)
qed

lemma assign_ok:
  assumes "state_ok width height g hist" and "in_grid width height p"
    and "v |\<subseteq>| cell_at g p" and "v \<noteq> {||}"
  shows "state_ok width height (put g p v) (put g p v # hist)"
proof -
  from assms(1) have dims: "has_dims g width height" and ok: "grid_ok g"
    and tr: "trace_ok g hist" by (simp_all add: state_ok_def)
  from grid_ok_cell_at [OF ok dims assms(2)] assms(3,4) have "cell_ok v"
    by (auto simp: cell_ok_def)
  with ok have ok': "grid_ok (put g p v)" by (rule grid_ok_put)
  from tr obtain rest where hist: "hist = g # rest" by (cases hist) (auto simp: trace_ok_def)
  from tr ok' no_growth_put [OF assms(3)] have "trace_ok (put g p v) (put g p v # hist)"
    by (simp add: trace_ok_def hist)
  with has_dims_put [OF dims] ok' show ?thesis by (simp add: state_ok_def)
qed

lemma visit_neighbors_ok:
  assumes "state_ok width height g hist"
    and "\<forall>n \<in> set ns. in_grid width height n"
    and "\<forall>q \<in> set stack. in_grid width height q"
  shows "\<exists>g' stack' hist' new. visit_neighbors allowed g stack hist ns = Inr (g', stack', hist')
           \<and> state_ok width height g' hist'
           \<and> (\<forall>q \<in> set stack'. in_grid width height q)
           \<and> hist' = new @ hist"
  using assms
proof (induction ns arbitrary: g stack hist)
  case Nil
  then show ?case by simp
next
  case (Cons n ns)
  obtain nx ny where n: "n = (nx, ny)" by (cases n)
  from Cons.prems have dims: "has_dims g width height" and inn: "in_grid width height (nx, ny)"
    by (simp_all add: state_ok_def n)
  let ?before = "cell_at g (nx, ny)"
  let ?after = "?before |\<inter>| allowed"
  have get: "grid_get g nx ny = Inr ?before" using dims inn by (rule grid_get_in_grid)
  show ?case
  proof (cases "?after \<noteq> ?before \<and> ?after \<noteq> {||}")
    case True
    let ?g1 = "put g (nx, ny) ?after"
    have set: "grid_set g nx ny ?after = Inr ?g1" using dims inn by (rule grid_set_in_grid)
    have "state_ok width height ?g1 (?g1 # hist)"
      using Cons.prems(1) inn True by (intro assign_ok) simp_all
    moreover from Cons.prems have "\<forall>n \<in> set ns. in_grid width height n" by simp
    moreover from Cons.prems inn have "\<forall>q \<in> set ((nx, ny) # stack). in_grid width height q"
      by simp
    ultimately obtain g' stack' hist' new where
      r: "visit_neighbors allowed ?g1 ((nx, ny) # stack) (?g1 # hist) ns = Inr (g', stack', hist')"
      "state_ok width height g' hist'" "\<forall>q \<in> set stack'. in_grid width height q"
      "hist' = new @ ?g1 # hist"
      using Cons.IH by blast
    from r(1) get set True have "visit_neighbors allowed g stack hist (n # ns) = Inr (g', stack', hist')"
      by (simp add: n Let_def)
    moreover from r(4) have "hist' = (new @ [?g1]) @ hist" by simp
    ultimately show ?thesis using r(2,3) by blast
  next
    case False
    from Cons.prems have "\<forall>n \<in> set ns. in_grid width height n" by simp
    with Cons.IH [OF Cons.prems(1) this Cons.prems(3)] obtain g' stack' hist' new where
      r: "visit_neighbors allowed g stack hist ns = Inr (g', stack', hist')"
      "state_ok width height g' hist'" "\<forall>q \<in> set stack'. in_grid width height q"
      "hist' = new @ hist"
      by blast
    from r(1) get False have "visit_neighbors allowed g stack hist (n # ns) = Inr (g', stack', hist')"
      by (auto simp: n Let_def)
    with r(2,3,4) show ?thesis by blast
  qed
qed

lemma neighbors_in_grid: "n \<in> set (neighbors x y width height) \<Longrightarrow> in_grid width height n"
  by (auto simp: neighbors_def in_grid_def split: if_splits)

lemma propagate_round_ok:
  assumes "valid_order ord" and "state_ok width height g hist"
    and "in_grid width height (cx, cy)"
    and "\<forall>q \<in> set stack. in_grid width height q"
  shows "\<exists>g' stack' hist' new.
           propagate_round ord width height g cx cy stack hist = Inr (g', stack', hist')
           \<and> state_ok width height g' hist'
           \<and> (\<forall>q \<in> set stack'. in_grid width height q)
           \<and> hist' = new @ hist"
proof -
  from assms(2) have dims: "has_dims g width height" and ok: "grid_ok g"
    by (simp_all add: state_ok_def)
  let ?c = "cell_at g (cx, cy)"
  have get: "grid_get g cx cy = Inr ?c" using dims assms(3) by (rule grid_get_in_grid)
  have "cell_ok ?c" using ok dims assms(3) by (rule grid_ok_cell_at)
  from valid_order_set(3) [OF assms(1) this] allowed_loop_ok obtain allowed where
    al: "allowed_loop (ord ?c) {||} = Inr allowed" by blast
  have "\<forall>n \<in> set (neighbors cx cy width height). in_grid width height n"
    by (simp add: neighbors_in_grid)
  from visit_neighbors_ok [OF assms(2) this assms(4), of allowed] get al show ?thesis
    by (simp add: propagate_round_def)
qed

lemma propagate_ok:
  "valid_order ord \<Longrightarrow> state_ok width height g hist \<Longrightarrow> \<forall>q \<in> set stack. in_grid width height q
    \<Longrightarrow> \<exists>g' hist' new. propagate ord width height g stack hist = Inr (g', hist')
          \<and> state_ok width height g' hist' \<and> hist' = new @ hist"
proof (induction ord width height g stack hist rule: propagate.induct)
  case (1 ord width height g hist)
  then show ?case by simp
next
  case (2 ord width height g cx cy stack hist)
  from "2.prems" have inn: "in_grid width height (cx, cy)"
    and st: "\<forall>q \<in> set stack. in_grid width height q" by simp_all
  note vo = "2.prems"(1)
  from propagate_round_ok [OF vo "2.prems"(2) inn st] obtain g1 stack1 hist1 new1 where
    r: "propagate_round ord width height g cx cy stack hist = Inr (g1, stack1, hist1)"
    "state_ok width height g1 hist1" "\<forall>q \<in> set stack1. in_grid width height q"
    "hist1 = new1 @ hist"
    by blast
  from "2.IH" [OF r(1) refl refl vo r(2,3)] obtain g' hist' new where
    p: "propagate ord width height g1 stack1 hist1 = Inr (g', hist')"
    "state_ok width height g' hist'" "hist' = new @ hist1"
    by blast
  from r(1) p(1) have "propagate ord width height g ((cx, cy) # stack) hist = Inr (g', hist')"
    by simp
  moreover from r(4) p(3) have "hist' = (new @ new1) @ hist" by simp
  ultimately show ?case using p(2) by blast
qed

lemma weighted_choice_total:
  assumes "items \<noteq> []"
  shows "\<exists>n. weighted_choice r items = Inr (n, stl r) \<and> n \<in> fst ` set items"
proof (cases "choice_walk 0 (sum_list (map snd items) * unit_val (shd r)) items")
  case None
  with assms show ?thesis
    by (simp add: weighted_choice_def uniform_def py_index_last)
next
  case (Some n)
  with choice_walk_in_items [OF Some] show ?thesis
    by (simp add: weighted_choice_def uniform_def)
qed

lemma scan_row_ok:
  assumes "valid_order ord" and "weights_ok tw" and "has_dims g width height" and "grid_ok g"
    and "0 \<le> y" and "y < height" and "\<forall>x \<in> set xs. 0 \<le> x \<and> x < width"
  shows "\<exists>cands. scan_row ord tw g y xs = Inr cands"
  using assms(7)
proof (induction xs)
  case Nil
  then show ?case by simp
next
  case (Cons x xs)
  then obtain rest where rest: "scan_row ord tw g y xs = Inr rest" by auto
  from Cons.prems assms(5,6) have inn: "in_grid width height (x, y)" by (simp add: in_grid_def)
  have get: "grid_get g x y = Inr (cell_at g (x, y))" using assms(3) inn by (rule grid_get_in_grid)
  have "cell_ok (cell_at g (x, y))" using assms(4,3) inn by (rule grid_ok_cell_at)
  from entropy_ok [OF assms(1,2) this] obtain e where "entropy ord tw (cell_at g (x, y)) = Inr e"
    by blast
  with get rest show ?case by simp
qed

lemma scan_rows_ok:
  assumes "valid_order ord" and "weights_ok tw" and "has_dims g width height" and "grid_ok g"
    and "\<forall>y \<in> set ys. 0 \<le> y \<and> y < height"
  shows "\<exists>cands. scan_rows ord tw g width ys = Inr cands"
  using assms(5)
proof (induction ys)
  case Nil
  then show ?case by simp
next
  case (Cons y ys)
  then obtain rest where rest: "scan_rows ord tw g width ys = Inr rest" by auto
  from Cons.prems have y: "0 \<le> y" "y < height" by simp_all
  have "\<forall>x \<in> set [0..width - 1]. 0 \<le> x \<and> x < width" by simp
  from scan_row_ok [OF assms(1-4) y this] obtain row where
    "scan_row ord tw g y [0..width - 1] = Inr row" by blast
  with rest show ?case by simp
qed

lemma scan_row_empty:
  assumes "scan_row ord tw g y xs = Inr []" and "x \<in> set xs"
  shows "\<exists>c. grid_get g x y = Inr c \<and> \<not> 1 < fcard c"
  using assms
proof (induction xs)
  case Nil
  then show ?case by simp
next
  case (Cons a xs)
  from Cons.prems(1) obtain c where c: "grid_get g a y = Inr c"
    by (auto simp: and_then_eq_Inr)
  with Cons.prems(1) have small: "\<not> 1 < fcard c"
    by (auto simp: and_then_eq_Inr split: if_splits)
  with Cons.prems(1) c have "scan_row ord tw g y xs = Inr []" by simp
  with Cons.IH Cons.prems(2) c small show ?case by auto
qed

lemma scan_rows_empty:
  assumes "scan_rows ord tw g width ys = Inr []" and "y \<in> set ys" and "0 \<le> x" and "x < width"
  shows "\<exists>c. grid_get g x y = Inr c \<and> \<not> 1 < fcard c"
  using assms(1,2)
proof (induction ys)
  case Nil
  then show ?case by simp
next
  case (Cons a ys)
  from Cons.prems(1) have row: "scan_row ord tw g a [0..width - 1] = Inr []"
    and rest: "scan_rows ord tw g width ys = Inr []"
    by (auto simp: and_then_eq_Inr)
  from assms(3,4) have "x \<in> set [0..width - 1]" by simp
  from scan_row_empty [OF row this] Cons.IH [OF rest] Cons.prems(2) show ?case by auto
qed

lemma uncollapsed_zero:
  assumes "has_dims g width height"
    and "\<And>p. in_grid width height p \<Longrightarrow> \<not> 1 < fcard (cell_at g p)"
  shows "uncollapsed g = 0"
proof -
  have "\<not> 1 < fcard c" if "row \<in> set g" "c \<in> set row" for row c
  proof -
    from that(1) obtain j where j: "j < length g" "g ! j = row" by (auto simp: in_set_conv_nth)
    from that(2) obtain k where k: "k < length row" "row ! k = c" by (auto simp: in_set_conv_nth)
    from assms(1) that(1) j k have "in_grid width height (int k, int j)"
      by (auto simp: has_dims_def in_grid_def)
    from assms(2) [OF this] j k show ?thesis by (simp add: cell_at_def)
  qed
  then show ?thesis by (simp add: uncollapsed_def grid_sum_def)
qed

lemma min_list_member: "xs \<noteq> [] \<Longrightarrow> min_list xs \<in> set (xs :: real list)"
  by (simp add: min_list_Min)

lemma collapse_round_ok:
  assumes "valid_order ord" and "weights_ok tw" and "state_ok width height g hist"
    and "scan_rows ord tw g width [0..height - 1] = Inr cands" and "cands \<noteq> []"
  shows "\<exists>g2 r2 hist2 new. collapse_round ord tw width height g r hist cands = Inr (g2, r2, hist2)
           \<and> state_ok width height g2 hist2 \<and> hist2 = new @ hist"
proof -
  from assms(3) have dims: "has_dims g width height" and ok: "grid_ok g"
    by (simp_all add: state_ok_def)
  let ?m = "min_list (map (\<lambda>(x, y, e). e) cands)"
  let ?low = "filter (\<lambda>(x, y, e). e = ?m) cands"
  from assms(5) have "?m \<in> set (map (\<lambda>(x, y, e). e) cands)" by (intro min_list_member) simp
  then have low: "?low \<noteq> []" by (auto simp: filter_empty_conv)
  then obtain pos r1 where pick: "choice r ?low = Inr (pos, r1)"
    by (auto simp: choice_def)
  obtain x y e where pos: "pos = (x, y, e)" by (cases pos)
  from choice_member [OF pick] have mem: "(x, y, e) \<in> set cands" by (auto simp: pos)
  from scan_rows_candidates [OF assms(4) mem] have inn: "in_grid width height (x, y)"
    by (auto simp: in_grid_def)
  let ?options = "cell_at g (x, y)"
  have get: "grid_get g x y = Inr ?options" using dims inn by (rule grid_get_in_grid)
  have cok: "cell_ok ?options" using ok dims inn by (rule grid_ok_cell_at)
  note vs = valid_order_set [OF assms(1) cok]
  from weight_items_ok [OF assms(2) vs(3)] obtain items where
    items: "weight_items tw (ord ?options) = Inr items" "map fst items = ord ?options" by blast
  from items(2) vs(2) have "items \<noteq> []" by auto
  from weighted_choice_total [OF this, of r1] obtain tile where
    tile: "weighted_choice r1 items = Inr (tile, stl r1)" "tile \<in> fst ` set items" by blast
  from tile(2) items(2) vs(1) have "tile |\<in>| ?options" by (metis set_map)
  then have sub: "{|tile|} |\<subseteq>| ?options" by simp
  let ?g1 = "put g (x, y) {|tile|}"
  have set: "grid_set g x y {|tile|} = Inr ?g1" using dims inn by (rule grid_set_in_grid)
  have st1: "state_ok width height ?g1 (?g1 # hist)"
    using assms(3) inn sub by (rule assign_ok) simp
  from inn have "\<forall>q \<in> set [(x, y)]. in_grid width height q" by simp
  from propagate_ok [OF assms(1) st1 this] obtain g2 hist2 new where
    p: "propagate ord width height ?g1 [(x, y)] (?g1 # hist) = Inr (g2, hist2)"
    "state_ok width height g2 hist2" "hist2 = new @ ?g1 # hist"
    by blast
  from pick get items(1) tile(1) set p(1)
  have "collapse_round ord tw width height g r hist cands = Inr (g2, stl r1, hist2)"
    by (simp add: collapse_round_def Let_def pos)
  moreover from p(3) have "hist2 = (new @ [?g1]) @ hist" by simp
  ultimately show ?thesis using p(2) by blast
qed

lemma solve_loop_ok:
  assumes "valid_order ord" and "weights_ok tw"
  shows "state_ok width height g hist
    \<Longrightarrow> \<exists>g' r' hist' iters' new.
          solve_loop ord tw width height g r hist iters = Inr (g', r', hist', iters')
          \<and> state_ok width height g' hist' \<and> hist' = new @ hist
          \<and> iters' \<le> iters + uncollapsed g \<and> uncollapsed g' = 0"
proof (induction "uncollapsed g" arbitrary: g r hist iters rule: less_induct)
  case less
  from less.prems have dims: "has_dims g width height" and ok: "grid_ok g"
    by (simp_all add: state_ok_def)
  have "\<forall>y \<in> set [0..height - 1]. 0 \<le> y \<and> y < height" by simp
  from scan_rows_ok [OF assms dims ok this] obtain cands where
    cands: "scan_rows ord tw g width [0..height - 1] = Inr cands" by blast
  show ?case
  proof (cases "cands = []")
    case True
    have "\<not> 1 < fcard (cell_at g p)" if "in_grid width height p" for p
    proof -
      obtain x y where p: "p = (x, y)" by (cases p)
      from that have "y \<in> set [0..height - 1]" "0 \<le> x" "x < width"
        by (simp_all add: in_grid_def p)
      from scan_rows_empty [OF cands [unfolded True] this]
        grid_get_in_grid [OF dims that [unfolded p]]
      show ?thesis by (simp add: p)
    qed
    with dims have "uncollapsed g = 0" by (rule uncollapsed_zero)
    moreover from cands True have "solve_loop ord tw width height g r hist iters = Inr (g, r, hist, iters)"
      by (subst solve_loop.simps) simp
    ultimately show ?thesis using less.prems by auto
  next
    case False
    from collapse_round_ok [OF assms less.prems cands False, of r] obtain g2 r2 hist2 new2 where
      c: "collapse_round ord tw width height g r hist cands = Inr (g2, r2, hist2)"
      "state_ok width height g2 hist2" "hist2 = new2 @ hist"
      by blast
    from collapse_round_decreases [OF cands c(1)] have dec: "uncollapsed g2 < uncollapsed g" .
    from less.hyps [OF dec c(2), of r2 "Suc iters"] obtain g' r' hist' iters' new where
      l: "solve_loop ord tw width height g2 r2 hist2 (Suc iters) = Inr (g', r', hist', iters')"
      "state_ok width height g' hist'" "hist' = new @ hist2"
      "iters' \<le> Suc iters + uncollapsed g2" "uncollapsed g' = 0"
      by blast
    from cands False c(1) l(1)
    have "solve_loop ord tw width height g r hist iters = Inr (g', r', hist', iters')"
      by (subst solve_loop.simps) simp
    moreover from c(3) l(3) have "hist' = (new @ new2) @ hist" by simp
    moreover from l(4) dec have "iters' \<le> iters + uncollapsed g" by simp
    ultimately show ?thesis using l(2,5) by blast
  qed
qed

lemma cell_ok_vocabulary: "cell_ok vocabulary"
  by (auto simp: cell_ok_def vocabulary_def tile_names_def TILE_TYPES_def)

lemma initial_state_ok:
  "state_ok width height (initial_grid width height) [initial_grid width height]"
  by (simp add: state_ok_def has_dims_def grid_ok_def trace_ok_def initial_grid_def
      cell_ok_vocabulary)

lemma uncollapsed_initial: "uncollapsed (initial_grid width height) \<le> nat width * nat height"
  by (simp add: uncollapsed_def grid_sum_def initial_grid_def sum_list_replicate)

lemma solve_ok:
  assumes "valid_order ord" and "profiles \<noteq> []"
  shows "\<exists>g r' hist iters new. solve ord width height r profiles = Inr (g, r', hist, iters)
           \<and> state_ok width height g hist
           \<and> hist = new @ [initial_grid width height]
           \<and> iters \<le> nat width * nat height
           \<and> uncollapsed g = 0"
proof -
  from initial_tile_weights_ok [OF assms(2), of r] obtain tw where
    tw: "initial_tile_weights r profiles = Inr (tw, sdrop 540 r)" "weights_ok tw"
    by (auto simp: weights_ok_def)
  from solve_loop_ok [OF assms(1) tw(2) initial_state_ok, of width height "sdrop 540 r" 0]
  obtain g r' hist iters new where
    l: "solve_loop ord tw width height (initial_grid width height) (sdrop 540 r)
          [initial_grid width height] 0 = Inr (g, r', hist, iters)"
    "state_ok width height g hist" "hist = new @ [initial_grid width height]"
    "iters \<le> 0 + uncollapsed (initial_grid width height)" "uncollapsed g = 0"
    by blast
  from tw(1) l(1) have "solve ord width height r profiles = Inr (g, r', hist, iters)"
    by (simp add: solve_def Let_def)
  moreover from l(4) uncollapsed_initial [of width height] have "iters \<le> nat width * nat height"
    by simp
  ultimately show ?thesis using l(2,3,5) by blast
qed

subsection \<open>Two iteration orders\<close>

text \<open>
  \<open>order_by pref\<close> iterates a set in the order in which its members occur in
  \<open>pref\<close>. The catalog order and its reverse are two orders a Python process can have.
\<close>

definition order_by :: "string list \<Rightarrow> set_order" where
  "order_by pref c = filter (\<lambda>t. t |\<in>| c) pref"

definition catalog_order :: set_order where
  "catalog_order = order_by tile_names"

definition reverse_order :: set_order where
  "reverse_order = order_by (rev tile_names)"

lemma valid_order_by:
  assumes "set tile_names \<subseteq> set pref"
  shows "valid_order (order_by pref)"
  unfolding valid_order_def order_by_def
proof (intro allI impI)
  fix c :: cell
  assume "c |\<subseteq>| vocabulary"
  then have "fset c \<subseteq> set tile_names" by (auto simp: vocabulary_member)
  with assms show "set (filter (\<lambda>t. t |\<in>| c) pref) = fset c" by auto
qed

lemma valid_catalog_order: "valid_order catalog_order"
  unfolding catalog_order_def by (rule valid_order_by) simp

lemma valid_reverse_order: "valid_order reverse_order"
  unfolding reverse_order_def by (rule valid_order_by) simp

lemma PLANET_PROFILES_nonempty: "PLANET_PROFILES \<noteq> []"
  by (simp add: PLANET_PROFILES_def)

definition zero_rng :: rng where
  "zero_rng = sconst (Draw 0 0 0)"

subsection \<open>The collapse invariant and termination\<close>

text \<open>
  C4. For every width and height, every state of the random source and every valid
  iteration order, the solver returns, and in the history of all the grids it had (from
  the initial grid, where every cell is the whole vocabulary, to the grid it ends with)
  every cell of every grid is a non-empty subset of the tile vocabulary, and from each
  grid to the next no cell grows: each cell of the newer grid is a subset of the same
  cell of the older grid and has at most its size.
\<close>

theorem solver_cells_nonempty_and_never_grow:
  assumes "valid_order ord" and "profiles \<noteq> []"
  shows "\<exists>g r' hist iters. solve ord width height r profiles = Inr (g, r', hist, iters)
           \<and> hist \<noteq> [] \<and> hd hist = g \<and> last hist = initial_grid width height
           \<and> (\<forall>h \<in> set hist. \<forall>row \<in> set h. \<forall>c \<in> set row. c \<noteq> {||} \<and> c |\<subseteq>| vocabulary)
           \<and> (\<forall>i. Suc i < length hist \<longrightarrow> no_growth (hist ! Suc i) (hist ! i))"
proof -
  from solve_ok [OF assms, of width height r] obtain g r' hist iters new where
    s: "solve ord width height r profiles = Inr (g, r', hist, iters)"
    "state_ok width height g hist" "hist = new @ [initial_grid width height]"
    by blast
  from s(2) have tr: "hist \<noteq> []" "hd hist = g" "\<forall>h \<in> set hist. grid_ok h"
    "successively (\<lambda>newer older. no_growth older newer) hist"
    by (simp_all add: state_ok_def trace_ok_def)
  from tr(3) have cells: "\<forall>h \<in> set hist. \<forall>row \<in> set h. \<forall>c \<in> set row. c \<noteq> {||} \<and> c |\<subseteq>| vocabulary"
    by (simp add: grid_ok_def cell_ok_def)
  from tr(4) have steps: "\<forall>i. Suc i < length hist \<longrightarrow> no_growth (hist ! Suc i) (hist ! i)"
    by (simp add: successively_conv_nth)
  from s(3) have "last hist = initial_grid width height" by simp
  with s(1) tr(1,2) cells steps show ?thesis by blast
qed

theorem solver_cells_nonempty_and_never_grow_witness:
  "valid_order catalog_order \<and> PLANET_PROFILES \<noteq> []
   \<and> (\<exists>g r' hist iters. solve catalog_order 2 2 zero_rng PLANET_PROFILES = Inr (g, r', hist, iters)
        \<and> hist \<noteq> [] \<and> hd hist = g \<and> last hist = initial_grid 2 2)"
  using solver_cells_nonempty_and_never_grow
    [OF valid_catalog_order PLANET_PROFILES_nonempty, of 2 2 zero_rng]
    valid_catalog_order PLANET_PROFILES_nonempty
  by blast

lemma uncollapsed_zero_cells:
  assumes "uncollapsed g = 0" and "row \<in> set g" and "c \<in> set row"
  shows "\<not> 1 < fcard c"
proof
  assume big: "1 < fcard c"
  let ?f = "\<lambda>c :: cell. if 1 < fcard c then 1 else 0 :: nat"
  from assms(1) have "\<forall>r \<in> set g. sum_list (map ?f r) = 0"
    by (simp add: uncollapsed_def grid_sum_def)
  with assms(2) have "sum_list (map ?f row) = 0" by blast
  with assms(3) have "?f c = 0" by (simp del: One_nat_def)
  with big show False by simp
qed

text \<open>
  C5. For every positive width and height, every state of the random source and every
  valid iteration order, the solver's main loop ends, after at most \<open>width * height\<close>
  rounds, with every cell a singleton. Each round of the loop leaves strictly fewer
  cells with more than one candidate than it found.
\<close>

theorem solver_terminates_within_cell_count:
  assumes "valid_order ord" and "profiles \<noteq> []" and "0 < width" and "0 < height"
  shows "(\<exists>g r' hist iters. solve ord width height r profiles = Inr (g, r', hist, iters)
            \<and> int iters \<le> width * height
            \<and> (\<forall>row \<in> set g. \<forall>c \<in> set row. fcard c = 1))
         \<and> (\<forall>tw g0 r0 hist0 cands g2 r2 hist2.
               scan_rows ord tw g0 width [0..height - 1] = Inr cands
               \<and> collapse_round ord tw width height g0 r0 hist0 cands = Inr (g2, r2, hist2)
               \<longrightarrow> uncollapsed g2 < uncollapsed g0)"
proof (intro conjI allI impI)
  from solve_ok [OF assms(1,2), of width height r] obtain g r' hist iters new where
    s: "solve ord width height r profiles = Inr (g, r', hist, iters)"
    "state_ok width height g hist" "iters \<le> nat width * nat height" "uncollapsed g = 0"
    by blast
  from s(3) have "int iters \<le> int (nat width * nat height)" by (simp only: of_nat_le_iff)
  also from assms(3,4) have "\<dots> = width * height" by simp
  finally have bound: "int iters \<le> width * height" .
  have single: "fcard c = 1" if "row \<in> set g" "c \<in> set row" for row c
  proof -
    from s(2) that have "c \<noteq> {||}" by (auto simp: state_ok_def grid_ok_def cell_ok_def)
    then have "0 < fcard c" by (metis fcard_0_eq gr0I)
    with uncollapsed_zero_cells [OF s(4) that] show ?thesis by linarith
  qed
  from s(1) bound single
  show "\<exists>g r' hist iters. solve ord width height r profiles = Inr (g, r', hist, iters)
      \<and> int iters \<le> width * height \<and> (\<forall>row \<in> set g. \<forall>c \<in> set row. fcard c = 1)"
    by blast
next
  fix tw g0 r0 hist0 cands g2 r2 hist2
  assume "scan_rows ord tw g0 width [0..height - 1] = Inr cands
      \<and> collapse_round ord tw width height g0 r0 hist0 cands = Inr (g2, r2, hist2)"
  then show "uncollapsed g2 < uncollapsed g0"
    using collapse_round_decreases by blast
qed

theorem solver_terminates_within_cell_count_witness:
  "valid_order catalog_order \<and> PLANET_PROFILES \<noteq> [] \<and> (0 :: int) < 3 \<and> (0 :: int) < 2
   \<and> (\<exists>g r' hist iters. solve catalog_order 3 2 zero_rng PLANET_PROFILES = Inr (g, r', hist, iters)
        \<and> int iters \<le> 3 * 2)"
proof -
  have w: "(0 :: int) < 3" and h: "(0 :: int) < 2" by simp_all
  from solver_terminates_within_cell_count
    [OF valid_catalog_order PLANET_PROFILES_nonempty w h, of zero_rng]
    valid_catalog_order PLANET_PROFILES_nonempty
  show ?thesis by auto
qed

subsection \<open>One propagation round\<close>

text \<open>
  \<open>narrows allowed before\<close>: the test \<^verbatim>\<open>after != before and after\<close> of the source,
  for \<^verbatim>\<open>after = before & allowed\<close>.
\<close>

definition narrows :: "cell \<Rightarrow> cell \<Rightarrow> bool" where
  "narrows allowed before \<longleftrightarrow>
     before |\<inter>| allowed \<noteq> before \<and> before |\<inter>| allowed \<noteq> {||}"

lemma visit_neighbors_spec:
  assumes "has_dims g width height" and "\<forall>n \<in> set ns. in_grid width height n" and "distinct ns"
  shows "\<exists>g' hist'.
           visit_neighbors allowed g stack hist ns
             = Inr (g', rev (filter (\<lambda>q. narrows allowed (cell_at g q)) ns) @ stack, hist')
           \<and> has_dims g' width height
           \<and> (\<forall>q. in_grid width height q \<longrightarrow>
                 cell_at g' q = (if q \<in> set ns \<and> narrows allowed (cell_at g q)
                                 then cell_at g q |\<inter>| allowed else cell_at g q))"
  using assms
proof (induction ns arbitrary: g stack hist)
  case Nil
  then show ?case by simp
next
  case (Cons n ns)
  obtain nx ny where n: "n = (nx, ny)" by (cases n)
  from Cons.prems have dims: "has_dims g width height" and inn: "in_grid width height n"
    and rest_in: "\<forall>q \<in> set ns. in_grid width height q"
    and fresh: "n \<notin> set ns" and dist: "distinct ns"
    by simp_all
  let ?before = "cell_at g n"
  let ?after = "?before |\<inter>| allowed"
  have get: "grid_get g nx ny = Inr ?before"
    using dims inn unfolding n by (rule grid_get_in_grid)
  show ?case
  proof (cases "narrows allowed ?before")
    case True
    let ?g1 = "put g n ?after"
    have set: "grid_set g nx ny ?after = Inr ?g1"
      using dims inn unfolding n by (rule grid_set_in_grid)
    have dims1: "has_dims ?g1 width height" using dims by (rule has_dims_put)
    have same: "cell_at ?g1 q = (if q = n then ?after else cell_at g q)"
      if "in_grid width height q" for q
      using dims inn that by (rule cell_at_put)
    from Cons.IH [OF dims1 rest_in dist, of "n # stack" "?g1 # hist"]
    obtain g' hist' where
      r: "visit_neighbors allowed ?g1 (n # stack) (?g1 # hist) ns
            = Inr (g', rev (filter (\<lambda>q. narrows allowed (cell_at ?g1 q)) ns) @ n # stack, hist')"
      "has_dims g' width height"
      "\<forall>q. in_grid width height q \<longrightarrow>
          cell_at g' q = (if q \<in> set ns \<and> narrows allowed (cell_at ?g1 q)
                          then cell_at ?g1 q |\<inter>| allowed else cell_at ?g1 q)"
      by blast
    have filt: "filter (\<lambda>q. narrows allowed (cell_at ?g1 q)) ns
        = filter (\<lambda>q. narrows allowed (cell_at g q)) ns"
    proof (rule filter_cong [OF refl])
      fix q assume "q \<in> set ns"
      with rest_in fresh same show "narrows allowed (cell_at ?g1 q) = narrows allowed (cell_at g q)"
        by auto
    qed
    have step: "visit_neighbors allowed g stack hist (n # ns)
        = visit_neighbors allowed ?g1 (n # stack) (?g1 # hist) ns"
      using get set True by (simp add: n narrows_def Let_def)
    have run: "visit_neighbors allowed g stack hist (n # ns)
        = Inr (g', rev (filter (\<lambda>q. narrows allowed (cell_at g q)) (n # ns)) @ stack, hist')"
      unfolding step r(1) filt using True by simp
    have cells: "cell_at g' q = (if q \<in> set (n # ns) \<and> narrows allowed (cell_at g q)
        then cell_at g q |\<inter>| allowed else cell_at g q)"
      if q: "in_grid width height q" for q
    proof -
      from r(3) q have eq: "cell_at g' q = (if q \<in> set ns \<and> narrows allowed (cell_at ?g1 q)
          then cell_at ?g1 q |\<inter>| allowed else cell_at ?g1 q)" by blast
      show ?thesis
      proof (cases "q = n")
        case True
        with eq fresh have "cell_at g' q = cell_at ?g1 n" by simp
        also from same [OF inn] have "\<dots> = ?after" by simp
        finally show ?thesis using True \<open>narrows allowed ?before\<close> by simp
      next
        case False
        with same [OF q] have "cell_at ?g1 q = cell_at g q" by simp
        with eq False show ?thesis by simp
      qed
    qed
    from run r(2) cells show ?thesis by blast
  next
    case False
    from Cons.IH [OF dims rest_in dist, of stack hist] obtain g' hist' where
      r: "visit_neighbors allowed g stack hist ns
            = Inr (g', rev (filter (\<lambda>q. narrows allowed (cell_at g q)) ns) @ stack, hist')"
      "has_dims g' width height"
      "\<forall>q. in_grid width height q \<longrightarrow>
          cell_at g' q = (if q \<in> set ns \<and> narrows allowed (cell_at g q)
                          then cell_at g q |\<inter>| allowed else cell_at g q)"
      by blast
    have step: "visit_neighbors allowed g stack hist (n # ns)
        = visit_neighbors allowed g stack hist ns"
      using get False by (auto simp: n narrows_def Let_def)
    have run: "visit_neighbors allowed g stack hist (n # ns)
        = Inr (g', rev (filter (\<lambda>q. narrows allowed (cell_at g q)) (n # ns)) @ stack, hist')"
      unfolding step r(1) using False by simp
    have cells: "cell_at g' q = (if q \<in> set (n # ns) \<and> narrows allowed (cell_at g q)
        then cell_at g q |\<inter>| allowed else cell_at g q)"
      if q: "in_grid width height q" for q
    proof -
      from r(3) q have eq: "cell_at g' q = (if q \<in> set ns \<and> narrows allowed (cell_at g q)
          then cell_at g q |\<inter>| allowed else cell_at g q)" by blast
      show ?thesis
      proof (cases "q = n")
        case True
        with eq fresh False show ?thesis by simp
      next
        case ne: False
        with eq show ?thesis by simp
      qed
    qed
    from run r(2) cells show ?thesis by blast
  qed
qed

lemma distinct_neighbors: "distinct (neighbors x y width height)"
  unfolding neighbors_def by (intro distinct_filter) simp

lemma unit_step:
  fixes a b :: int
  shows "\<bar>a\<bar> + \<bar>b\<bar> = 1 \<longleftrightarrow>
    (a = 1 \<and> b = 0) \<or> (a = - 1 \<and> b = 0) \<or> (a = 0 \<and> b = 1) \<or> (a = 0 \<and> b = - 1)"
  by arith

lemma set_neighbors:
  "set (neighbors x y width height)
     = {q. in_grid width height q \<and> \<bar>fst q - x\<bar> + \<bar>snd q - y\<bar> = 1}"
proof -
  have near: "q \<in> set [(x + 1, y), (x - 1, y), (x, y + 1), (x, y - 1)]
      \<longleftrightarrow> \<bar>fst q - x\<bar> + \<bar>snd q - y\<bar> = 1" for q :: "int \<times> int"
    unfolding unit_step by (cases q) auto
  have "set (neighbors x y width height)
      = {q \<in> set [(x + 1, y), (x - 1, y), (x, y + 1), (x, y - 1)]. in_grid width height q}"
    unfolding neighbors_def set_filter in_grid_def by (simp add: case_prod_beta)
  with near show ?thesis by blast
qed

lemma vocabulary_eq:
  "vocabulary = {|''ocean'', ''shore'', ''lowland'', ''highland'', ''mountain'', ''polar''|}"
  by (simp add: vocabulary_def tile_names_def TILE_TYPES_def)

text \<open>
  C6. One round of the propagation loop, for a popped cell \<open>(cx, cy)\<close> of a well-formed
  grid: \<open>allowed\<close> is the union of the allowed neighbours of the tiles in the popped
  cell's candidate set; the neighbours visited are the cells of the grid at distance 1
  along one axis; a neighbour's set becomes its intersection with \<open>allowed\<close>, and the
  neighbour is pushed, exactly when the intersection differs from the set and is not
  empty; otherwise (also when the intersection is empty) its set is unchanged and it is
  not pushed; all other cells are unchanged.
\<close>

theorem propagate_round_narrows_neighbors:
  assumes "valid_order ord" and "has_dims g width height" and "grid_ok g"
    and "in_grid width height (cx, cy)"
  shows "\<exists>allowed g' hist'.
           (\<forall>t. t |\<in>| allowed \<longleftrightarrow>
              (\<exists>n tt. n |\<in>| cell_at g (cx, cy) \<and> map_of TILE_TYPES n = Some tt
                       \<and> t \<in> set (allowed_neighbors tt)))
         \<and> propagate_round ord width height g cx cy stack hist
             = Inr (g', rev (filter (\<lambda>q. narrows allowed (cell_at g q))
                                (neighbors cx cy width height)) @ stack, hist')
         \<and> has_dims g' width height
         \<and> (\<forall>q. in_grid width height q \<longrightarrow>
               cell_at g' q =
                 (if q \<in> set (neighbors cx cy width height) \<and> narrows allowed (cell_at g q)
                  then cell_at g q |\<inter>| allowed else cell_at g q))
         \<and> set (neighbors cx cy width height)
             = {q. in_grid width height q \<and> \<bar>fst q - cx\<bar> + \<bar>snd q - cy\<bar> = 1}"
proof -
  let ?c = "cell_at g (cx, cy)"
  have get: "grid_get g cx cy = Inr ?c" using assms(2,4) by (rule grid_get_in_grid)
  have cok: "cell_ok ?c" using assms(3,2,4) by (rule grid_ok_cell_at)
  note vs = valid_order_set [OF assms(1) cok]
  from allowed_loop_ok [OF vs(3), of "{||}"] obtain allowed where
    al: "allowed_loop (ord ?c) {||} = Inr allowed"
    "\<forall>t. t |\<in>| allowed \<longleftrightarrow> t |\<in>| {||}
        \<or> (\<exists>n \<in> set (ord ?c). \<exists>tt. map_of TILE_TYPES n = Some tt \<and> t \<in> set (allowed_neighbors tt))"
    by blast
  from al(2) vs(1) have union: "\<forall>t. t |\<in>| allowed \<longleftrightarrow>
      (\<exists>n tt. n |\<in>| ?c \<and> map_of TILE_TYPES n = Some tt \<and> t \<in> set (allowed_neighbors tt))"
    by auto
  have "\<forall>n \<in> set (neighbors cx cy width height). in_grid width height n"
    by (simp add: neighbors_in_grid)
  from visit_neighbors_spec [OF assms(2) this distinct_neighbors, of allowed stack hist]
  obtain g' hist' where
    v: "visit_neighbors allowed g stack hist (neighbors cx cy width height)
          = Inr (g', rev (filter (\<lambda>q. narrows allowed (cell_at g q))
                             (neighbors cx cy width height)) @ stack, hist')"
    "has_dims g' width height"
    "\<forall>q. in_grid width height q \<longrightarrow>
        cell_at g' q = (if q \<in> set (neighbors cx cy width height) \<and> narrows allowed (cell_at g q)
                        then cell_at g q |\<inter>| allowed else cell_at g q)"
    by blast
  from get al(1) v(1) have run: "propagate_round ord width height g cx cy stack hist
      = Inr (g', rev (filter (\<lambda>q. narrows allowed (cell_at g q))
                         (neighbors cx cy width height)) @ stack, hist')"
    by (simp add: propagate_round_def)
  from union run v(2,3) set_neighbors [of cx cy width height] show ?thesis by blast
qed

theorem propagate_round_narrows_neighbors_witness:
  "valid_order catalog_order
   \<and> has_dims [[{|''mountain''|}, {|''ocean''|}, vocabulary]] 3 1
   \<and> grid_ok [[{|''mountain''|}, {|''ocean''|}, vocabulary]]
   \<and> in_grid 3 1 (1, 0)
   \<and> (\<exists>g' hist'.
         propagate_round catalog_order 3 1 [[{|''mountain''|}, {|''ocean''|}, vocabulary]] 1 0 [] []
           = Inr (g', [(2, 0)], hist')
       \<and> cell_at g' (2, 0) = {|''ocean'', ''shore'', ''lowland''|}
       \<and> cell_at g' (0, 0) = {|''mountain''|}
       \<and> cell_at g' (1, 0) = {|''ocean''|})"
proof -
  let ?g = "[[{|''mountain''|}, {|''ocean''|}, vocabulary]]"
  let ?a = "{|''ocean'', ''shore'', ''lowland''|}"
  have d: "has_dims ?g 3 1" by (simp add: has_dims_def)
  have k: "grid_ok ?g"
    using cell_ok_vocabulary by (simp add: grid_ok_def cell_ok_def vocabulary_eq)
  have i: "in_grid 3 1 (1, 0)" by (simp add: in_grid_def)
  from propagate_round_narrows_neighbors [OF valid_catalog_order d k i, of "[]" "[]"]
  obtain allowed g' hist' where
    al: "\<forall>t. t |\<in>| allowed \<longleftrightarrow>
           (\<exists>n tt. n |\<in>| cell_at ?g (1, 0) \<and> map_of TILE_TYPES n = Some tt
                    \<and> t \<in> set (allowed_neighbors tt))"
    and run: "propagate_round catalog_order 3 1 ?g 1 0 [] []
        = Inr (g', rev (filter (\<lambda>q. narrows allowed (cell_at ?g q)) (neighbors 1 0 3 1)) @ [], hist')"
    and cells: "\<forall>q. in_grid 3 1 q \<longrightarrow>
        cell_at g' q = (if q \<in> set (neighbors 1 0 3 1) \<and> narrows allowed (cell_at ?g q)
                        then cell_at ?g q |\<inter>| allowed else cell_at ?g q)"
    by (elim exE conjE) (rule that, assumption+)
  have at: "cell_at ?g (0, 0) = {|''mountain''|}" "cell_at ?g (1, 0) = {|''ocean''|}"
    "cell_at ?g (2, 0) = vocabulary"
    by (simp_all add: cell_at_def)
  have allowed: "allowed = ?a"
  proof (rule fset_eqI)
    fix t
    from al have "t |\<in>| allowed \<longleftrightarrow>
        (\<exists>tt. map_of TILE_TYPES ''ocean'' = Some tt \<and> t \<in> set (allowed_neighbors tt))"
      by (simp add: at)
    also have "\<dots> \<longleftrightarrow> t \<in> set [''ocean'', ''shore'', ''lowland'']"
      by (simp add: TILE_TYPES_def)
    finally show "t |\<in>| allowed \<longleftrightarrow> t |\<in>| ?a" by auto
  qed
  have inter: "vocabulary |\<inter>| ?a = ?a" by (auto simp: vocabulary_eq)
  have "''highland'' |\<in>| vocabulary" "''highland'' |\<notin>| ?a" by (simp_all add: vocabulary_eq)
  then have neq: "?a \<noteq> vocabulary" by metis
  have n2: "narrows ?a vocabulary" using neq by (simp add: narrows_def inter)
  have n0: "\<not> narrows ?a {|''mountain''|}" by (simp add: narrows_def)
  have nb: "neighbors 1 0 3 1 = [(2, 0), (0, 0)]" by (simp add: neighbors_def)
  have stack: "rev (filter (\<lambda>q. narrows allowed (cell_at ?g q)) (neighbors 1 0 3 1)) @ [] = [(2, 0)]"
    unfolding allowed nb using n2 n0 by (simp add: at)
  have c2: "cell_at g' (2, 0) = ?a"
    using cells [rule_format, of "(2, 0)"] n2 unfolding allowed nb
    by (simp add: in_grid_def at inter)
  have c0: "cell_at g' (0, 0) = {|''mountain''|}"
    using cells [rule_format, of "(0, 0)"] n0 unfolding allowed nb
    by (simp add: in_grid_def at)
  have c1: "cell_at g' (1, 0) = {|''ocean''|}"
    using cells [rule_format, of "(1, 0)"] unfolding allowed nb
    by (simp add: in_grid_def at)
  from run stack have "propagate_round catalog_order 3 1 ?g 1 0 [] [] = Inr (g', [(2, 0)], hist')"
    by simp
  with c2 c0 c1 valid_catalog_order d k i show ?thesis by blast
qed

section \<open>Heightfield synthesis\<close>

text \<open>
  The loops of \<^verbatim>\<open>generate_heightfield\<close>. The source fills a preallocated grid of
  zeros cell by cell in row-major order; the model builds the same rows in the same order.
  \<^verbatim>\<open>TILE_TYPES[tiles[y][x]]\<close> can raise IndexError (a short row) or KeyError.
\<close>

fun height_row ::
  "string list list \<Rightarrow> int \<Rightarrow> int list \<Rightarrow> rng \<Rightarrow> PlanetProfile list \<Rightarrow> error + (real list \<times> rng)" where
  "height_row tiles y [] r profiles = Inr ([], r)"
| "height_row tiles y (x # xs) r profiles =
     and_then (grid_get tiles x y) (\<lambda>name.
     and_then (tile_type name) (\<lambda>tile.
     and_then (planet_sample r profiles) (\<lambda>(sample, r1).
       let (min_h, max_h) = height_range tile;
           v = max (min sample max_h) min_h
       in and_then (height_row tiles y xs r1 profiles) (\<lambda>(vs, r2). Inr (v # vs, r2)))))"

fun height_rows ::
  "string list list \<Rightarrow> int \<Rightarrow> int list \<Rightarrow> rng \<Rightarrow> PlanetProfile list
     \<Rightarrow> error + (real list list \<times> rng)" where
  "height_rows tiles width [] r profiles = Inr ([], r)"
| "height_rows tiles width (y # ys) r profiles =
     and_then (height_row tiles y [0..width - 1] r profiles) (\<lambda>(vs, r1).
     and_then (height_rows tiles width ys r1 profiles) (\<lambda>(rest, r2). Inr (vs # rest, r2)))"

text \<open>\<^verbatim>\<open>width = len(tiles[0])\<close> raises IndexError on an empty grid.\<close>

definition generate_heightfield ::
  "string list list \<Rightarrow> rng \<Rightarrow> PlanetProfile list \<Rightarrow> error + (real list list \<times> rng)" where
  "generate_heightfield tiles r profiles =
     (let height = int (length tiles)
      in and_then (py_index tiles 0) (\<lambda>row0.
           let width = int (length row0)
           in height_rows tiles width [0..height - 1] r profiles))"

text \<open>
  \<open>clamped_sample name r profiles v\<close>: \<open>v\<close> is the one planet sample drawn in state
  \<open>r\<close>, clamped to the elevation range of the catalog tile \<open>name\<close>, and lies in that
  range.
\<close>

definition clamped_sample :: "string \<Rightarrow> rng \<Rightarrow> PlanetProfile list \<Rightarrow> real \<Rightarrow> bool" where
  "clamped_sample name r profiles v \<longleftrightarrow>
     (\<exists>tile sample. map_of TILE_TYPES name = Some tile
        \<and> planet_sample r profiles = Inr (sample, sdrop 3 r)
        \<and> v = max (min sample (snd (height_range tile))) (fst (height_range tile))
        \<and> fst (height_range tile) \<le> v \<and> v \<le> snd (height_range tile))"

definition names_ok :: "string list list \<Rightarrow> bool" where
  "names_ok tiles \<longleftrightarrow> (\<forall>row \<in> set tiles. \<forall>n \<in> set row. n \<in> set tile_names)"

lemma TILE_TYPES_ranges: "map_of TILE_TYPES n = Some t \<Longrightarrow> fst (height_range t) \<le> snd (height_range t)"
  by (auto simp: TILE_TYPES_def split: if_splits)

lemma names_ok_cell_at:
  assumes "names_ok tiles" and "has_dims tiles width height" and "in_grid width height p"
  shows "cell_at tiles p \<in> set tile_names"
proof -
  from assms(2,3) have y: "nat (snd p) < length tiles" by (auto simp: has_dims_def in_grid_def)
  then have row: "tiles ! nat (snd p) \<in> set tiles" by simp
  with assms(2,3) have "nat (fst p) < length (tiles ! nat (snd p))"
    by (auto simp: has_dims_def in_grid_def)
  then have "tiles ! nat (snd p) ! nat (fst p) \<in> set (tiles ! nat (snd p))" by simp
  with assms(1) row show ?thesis unfolding names_ok_def cell_at_def by blast
qed

lemma height_row_spec:
  assumes "has_dims tiles width height" and "names_ok tiles" and "profiles \<noteq> []"
    and "0 \<le> y" and "y < height" and "\<forall>x \<in> set xs. 0 \<le> x \<and> x < width"
  shows "\<exists>vs. height_row tiles y xs r profiles = Inr (vs, sdrop (3 * length xs) r)
           \<and> length vs = length xs
           \<and> (\<forall>i < length xs.
                 clamped_sample (cell_at tiles (xs ! i, y)) (sdrop (3 * i) r) profiles (vs ! i))"
  using assms(6)
proof (induction xs arbitrary: r)
  case Nil
  then show ?case by simp
next
  case (Cons x xs)
  from Cons.prems assms(4,5) have inn: "in_grid width height (x, y)" by (simp add: in_grid_def)
  let ?name = "cell_at tiles (x, y)"
  have get: "grid_get tiles x y = Inr ?name" using assms(1) inn by (rule grid_get_in_grid)
  from names_ok_cell_at [OF assms(2,1) inn] tile_type_known obtain tile where
    tile: "map_of TILE_TYPES ?name = Some tile" "tile_type ?name = Inr tile" by blast
  from planet_sample_total [OF assms(3), of r] obtain sample where
    sample: "planet_sample r profiles = Inr (sample, sdrop 3 r)" by blast
  let ?v = "max (min sample (snd (height_range tile))) (fst (height_range tile))"
  from TILE_TYPES_ranges [OF tile(1)] have bounds: "fst (height_range tile) \<le> ?v"
    "?v \<le> snd (height_range tile)" by simp_all
  from tile(1) sample bounds have first: "clamped_sample ?name r profiles ?v"
    unfolding clamped_sample_def by blast
  from Cons.prems have "\<forall>x \<in> set xs. 0 \<le> x \<and> x < width" by simp
  from Cons.IH [OF this, of "sdrop 3 r"] obtain vs where
    vs: "height_row tiles y xs (sdrop 3 r) profiles = Inr (vs, sdrop (3 * length xs) (sdrop 3 r))"
    "length vs = length xs"
    "\<forall>i < length xs. clamped_sample (cell_at tiles (xs ! i, y)) (sdrop (3 * i) (sdrop 3 r))
        profiles (vs ! i)"
    by blast
  have drop: "\<And>k. sdrop k (sdrop 3 r) = sdrop (k + 3) r" by (simp add: add.commute)
  from get tile(2) sample vs(1)
  have run: "height_row tiles y (x # xs) r profiles = Inr (?v # vs, sdrop (3 * length (x # xs)) r)"
    by (simp add: drop case_prod_beta Let_def)
  have each: "clamped_sample (cell_at tiles ((x # xs) ! i, y)) (sdrop (3 * i) r) profiles
      ((?v # vs) ! i)" if "i < length (x # xs)" for i
  proof (cases i)
    case 0
    with first show ?thesis by simp
  next
    case (Suc j)
    with that vs(3) have "clamped_sample (cell_at tiles (xs ! j, y)) (sdrop (3 * j) (sdrop 3 r))
        profiles (vs ! j)" by simp
    then show ?thesis by (simp add: Suc drop)
  qed
  from run vs(2) each show ?case by (intro exI [of _ "?v # vs"]) simp
qed

lemma height_rows_spec:
  assumes "has_dims tiles width height" and "names_ok tiles" and "profiles \<noteq> []"
    and "\<forall>y \<in> set ys. 0 \<le> y \<and> y < height"
  shows "\<exists>hs. height_rows tiles width ys r profiles = Inr (hs, sdrop (3 * nat width * length ys) r)
           \<and> length hs = length ys
           \<and> (\<forall>j < length ys. length (hs ! j) = nat width
                \<and> (\<forall>i < nat width.
                      clamped_sample (cell_at tiles (int i, ys ! j))
                        (sdrop (3 * (j * nat width + i)) r) profiles (hs ! j ! i)))"
  using assms(4)
proof (induction ys arbitrary: r)
  case Nil
  then show ?case by simp
next
  case (Cons y ys)
  let ?w = "nat width"
  from Cons.prems have y: "0 \<le> y" "y < height" by simp_all
  have xs: "\<forall>x \<in> set [0..width - 1]. 0 \<le> x \<and> x < width" by simp
  have len: "length [0..width - 1] = ?w" by simp
  have nth: "[0..width - 1] ! i = int i" if "i < ?w" for i
    using that by (simp add: nth_upto)
  from height_row_spec [OF assms(1-3) y xs, of r] len nth obtain vs where
    vs: "height_row tiles y [0..width - 1] r profiles = Inr (vs, sdrop (3 * ?w) r)"
    "length vs = ?w"
    "\<forall>i < ?w. clamped_sample (cell_at tiles (int i, y)) (sdrop (3 * i) r) profiles (vs ! i)"
    by auto
  from Cons.prems have "\<forall>y \<in> set ys. 0 \<le> y \<and> y < height" by simp
  from Cons.IH [OF this, of "sdrop (3 * ?w) r"] obtain hs where
    hs: "height_rows tiles width ys (sdrop (3 * ?w) r) profiles
          = Inr (hs, sdrop (3 * ?w * length ys) (sdrop (3 * ?w) r))"
    "length hs = length ys"
    "\<forall>j < length ys. length (hs ! j) = ?w
        \<and> (\<forall>i < ?w. clamped_sample (cell_at tiles (int i, ys ! j))
              (sdrop (3 * (j * ?w + i)) (sdrop (3 * ?w) r)) profiles (hs ! j ! i))"
    by blast
  have drop: "\<And>k. sdrop k (sdrop (3 * ?w) r) = sdrop (k + 3 * ?w) r" by (simp add: add.commute)
  from vs(1) hs(1) have run: "height_rows tiles width (y # ys) r profiles
      = Inr (vs # hs, sdrop (3 * ?w * length (y # ys)) r)"
    by (simp add: drop algebra_simps)
  have each: "length ((vs # hs) ! j) = ?w
      \<and> (\<forall>i < ?w. clamped_sample (cell_at tiles (int i, (y # ys) ! j))
            (sdrop (3 * (j * ?w + i)) r) profiles ((vs # hs) ! j ! i))"
    if "j < length (y # ys)" for j
  proof (cases j)
    case 0
    with vs(2,3) show ?thesis by simp
  next
    case (Suc k)
    with that hs(3) have k: "length (hs ! k) = ?w"
      "\<forall>i < ?w. clamped_sample (cell_at tiles (int i, ys ! k))
          (sdrop (3 * (k * ?w + i)) (sdrop (3 * ?w) r)) profiles (hs ! k ! i)"
      by simp_all
    have "sdrop (3 * (k * ?w + i)) (sdrop (3 * ?w) r) = sdrop (3 * (Suc k * ?w + i)) r" for i
      by (simp add: algebra_simps)
    with k show ?thesis by (simp add: Suc)
  qed
  from run hs(2) each show ?case by (intro exI [of _ "vs # hs"]) simp
qed

text \<open>
  C8. For every non-empty rectangular grid of catalog tile names, every profile list that
  is not empty and every state of the random source, \<^verbatim>\<open>generate_heightfield\<close> returns a
  grid of the same shape, taking three draws (one planet sample) per cell in row-major
  order; the elevation of a cell is that one sample clamped to its tile's range,
  \<open>max (min sample max_h) min_h\<close>, and so lies in the range, both ends included.
\<close>

theorem heights_within_tile_ranges:
  assumes "tiles \<noteq> []" and "\<forall>row \<in> set tiles. length row = length (hd tiles)"
    and "names_ok tiles" and "profiles \<noteq> []"
  shows "\<exists>hs. generate_heightfield tiles r profiles
                = Inr (hs, sdrop (3 * length (hd tiles) * length tiles) r)
           \<and> length hs = length tiles
           \<and> (\<forall>y < length tiles. length (hs ! y) = length (hd tiles)
                \<and> (\<forall>x < length (hd tiles).
                      clamped_sample (tiles ! y ! x)
                        (sdrop (3 * (y * length (hd tiles) + x)) r) profiles (hs ! y ! x)))"
proof -
  let ?width = "int (length (hd tiles))" and ?height = "int (length tiles)"
  have dims: "has_dims tiles ?width ?height" using assms(2) by (simp add: has_dims_def)
  have row0: "py_index tiles 0 = Inr (hd tiles)"
    using assms(1) by (simp add: py_index_def hd_conv_nth)
  have ys: "\<forall>y \<in> set [0..?height - 1]. 0 \<le> y \<and> y < ?height" by simp
  have len: "length [0..?height - 1] = length tiles" by simp
  have nth: "[0..?height - 1] ! j = int j" if "j < length tiles" for j
    using that by (simp add: nth_upto)
  from height_rows_spec [OF dims assms(3,4) ys, of r] obtain hs where
    hs: "height_rows tiles ?width [0..?height - 1] r profiles
          = Inr (hs, sdrop (3 * nat ?width * length [0..?height - 1]) r)"
    "length hs = length [0..?height - 1]"
    "\<forall>j < length [0..?height - 1]. length (hs ! j) = nat ?width
        \<and> (\<forall>i < nat ?width. clamped_sample (cell_at tiles (int i, [0..?height - 1] ! j))
              (sdrop (3 * (j * nat ?width + i)) r) profiles (hs ! j ! i))"
    by blast
  from row0 hs(1) have run: "generate_heightfield tiles r profiles
      = Inr (hs, sdrop (3 * length (hd tiles) * length tiles) r)"
    by (simp add: generate_heightfield_def Let_def)
  have each: "length (hs ! y) = length (hd tiles)
      \<and> (\<forall>x < length (hd tiles). clamped_sample (tiles ! y ! x)
            (sdrop (3 * (y * length (hd tiles) + x)) r) profiles (hs ! y ! x))"
    if "y < length tiles" for y
    using hs(3) that nth [OF that] by (simp add: cell_at_def)
  from run hs(2) each show ?thesis by (intro exI [of _ hs]) simp
qed

theorem heights_within_tile_ranges_witness:
  "[[''ocean'', ''polar'']] \<noteq> []
   \<and> list_all (\<lambda>row. length row = length (hd [[''ocean'', ''polar'']])) [[''ocean'', ''polar'']]
   \<and> names_ok [[''ocean'', ''polar'']] \<and> PLANET_PROFILES \<noteq> []
   \<and> (\<exists>hs. generate_heightfield [[''ocean'', ''polar'']] zero_rng PLANET_PROFILES
              = Inr (hs, sdrop 6 zero_rng)
        \<and> clamped_sample ''ocean'' zero_rng PLANET_PROFILES (hs ! 0 ! 0)
        \<and> clamped_sample ''polar'' (sdrop 3 zero_rng) PLANET_PROFILES (hs ! 0 ! 1))"
proof -
  have a: "[[''ocean'', ''polar'']] \<noteq> []" by simp
  have b: "\<forall>row \<in> set [[''ocean'', ''polar'']]. length row = length (hd [[''ocean'', ''polar'']])"
    by simp
  have c: "names_ok [[''ocean'', ''polar'']]"
    by (simp add: names_ok_def tile_names_def TILE_TYPES_def)
  from heights_within_tile_ranges [OF a b c PLANET_PROFILES_nonempty, of zero_rng]
  obtain hs where
    hs: "generate_heightfield [[''ocean'', ''polar'']] zero_rng PLANET_PROFILES
          = Inr (hs, sdrop 6 zero_rng)"
    "\<forall>y < 1. \<forall>x < 2. clamped_sample ([[''ocean'', ''polar'']] ! y ! x)
        (sdrop (3 * (y * 2 + x)) zero_rng) PLANET_PROFILES (hs ! y ! x)"
    by auto
  from hs(2) [rule_format, of 0 0] hs(2) [rule_format, of 0 1]
  have "clamped_sample ''ocean'' zero_rng PLANET_PROFILES (hs ! 0 ! 0)"
    "clamped_sample ''polar'' (sdrop 3 zero_rng) PLANET_PROFILES (hs ! 0 ! 1)"
    by simp_all
  with hs(1) c PLANET_PROFILES_nonempty show ?thesis by auto
qed

section \<open>Distance to the ocean\<close>

text \<open>\<^verbatim>\<open>math.hypot(dx, dy)\<close> for two ints.\<close>

definition hypot :: "int \<Rightarrow> int \<Rightarrow> real" where
  "hypot a b = sqrt (real_of_int (a * a + b * b))"

text \<open>
  The test \<^verbatim>\<open>0 <= nx < len(tiles[0]) and 0 <= ny < len(tiles)\<close>: \<^verbatim>\<open>tiles[0]\<close> is
  evaluated only when \<open>0 \<le> nx\<close>.
\<close>

definition in_bounds :: "'a list list \<Rightarrow> int \<Rightarrow> int \<Rightarrow> error + bool" where
  "in_bounds tiles nx ny =
     (if 0 \<le> nx then
        and_then (py_index tiles 0) (\<lambda>row0.
          Inr (nx < int (length row0) \<and> 0 \<le> ny \<and> ny < int (length tiles)))
      else Inr False)"

text \<open>
  The three nested loops of \<^verbatim>\<open>_distance_to_ocean\<close>; \<open>Some d\<close> is the early
  \<^verbatim>\<open>return d\<close>, \<open>None\<close> a loop that ran to its end.
\<close>

fun scan_dy :: "string list list \<Rightarrow> int \<Rightarrow> int \<Rightarrow> int \<Rightarrow> int list \<Rightarrow> error + real option" where
  "scan_dy tiles x y dx [] = Inr None"
| "scan_dy tiles x y dx (dy # dys) =
     and_then (in_bounds tiles (x + dx) (y + dy)) (\<lambda>inside.
     and_then (if inside
               then and_then (grid_get tiles (x + dx) (y + dy)) (\<lambda>t. Inr (t = ''ocean''))
               else Inr False) (\<lambda>found.
       if found then Inr (Some (hypot dx dy)) else scan_dy tiles x y dx dys))"

fun scan_dx :: "string list list \<Rightarrow> int \<Rightarrow> int \<Rightarrow> int \<Rightarrow> int list \<Rightarrow> error + real option" where
  "scan_dx tiles x y radius [] = Inr None"
| "scan_dx tiles x y radius (dx # dxs) =
     and_then (scan_dy tiles x y dx [- radius..radius]) (\<lambda>res.
       case res of Some d \<Rightarrow> Inr (Some d) | None \<Rightarrow> scan_dx tiles x y radius dxs)"

fun scan_radius :: "string list list \<Rightarrow> int \<Rightarrow> int \<Rightarrow> int list \<Rightarrow> error + real option" where
  "scan_radius tiles x y [] = Inr None"
| "scan_radius tiles x y (radius # rs) =
     and_then (scan_dx tiles x y radius [- radius..radius]) (\<lambda>res.
       case res of Some d \<Rightarrow> Inr (Some d) | None \<Rightarrow> scan_radius tiles x y rs)"

definition distance_to_ocean :: "string list list \<Rightarrow> int \<Rightarrow> int \<Rightarrow> error + real" where
  "distance_to_ocean tiles x y =
     and_then (grid_get tiles x y) (\<lambda>t.
       if t = ''ocean'' then Inr 0
       else let max_radius = 10
            in and_then (scan_radius tiles x y [1..max_radius]) (\<lambda>res.
                 case res of Some d \<Rightarrow> Inr d | None \<Rightarrow> Inr (real_of_int max_radius)))"

subsection \<open>The search order, as the specification words it\<close>

text \<open>
  The offsets of the full square of a radius, \<open>dx\<close>-major; the squares of radius 1 to 10
  one after the other; the first offset of that list that is inside the grid and holds an
  ocean tile.
\<close>

definition square_offsets :: "int \<Rightarrow> (int \<times> int) list" where
  "square_offsets radius =
     concat (map (\<lambda>dx. map (\<lambda>dy. (dx, dy)) [- radius..radius]) [- radius..radius])"

definition scan_order :: "(int \<times> int) list" where
  "scan_order = concat (map square_offsets [1..10])"

definition ocean_at :: "string list list \<Rightarrow> int \<Rightarrow> int \<Rightarrow> int \<times> int \<Rightarrow> bool" where
  "ocean_at tiles x y d \<longleftrightarrow>
     0 \<le> x + fst d \<and> x + fst d < int (length (hd tiles))
     \<and> 0 \<le> y + snd d \<and> y + snd d < int (length tiles)
     \<and> tiles ! nat (y + snd d) ! nat (x + fst d) = ''ocean''"

definition first_ocean_distance :: "string list list \<Rightarrow> int \<Rightarrow> int \<Rightarrow> real" where
  "first_ocean_distance tiles x y =
     (if tiles ! nat y ! nat x = ''ocean'' then 0
      else case List.find (ocean_at tiles x y) scan_order of
             None \<Rightarrow> 10
           | Some d \<Rightarrow> hypot (fst d) (snd d))"

lemma find_append:
  "List.find P (xs @ ys) = (case List.find P xs of None \<Rightarrow> List.find P ys | Some v \<Rightarrow> Some v)"
  by (induction xs) auto

definition found_distance :: "(int \<times> int) option \<Rightarrow> real option" where
  "found_distance = map_option (\<lambda>d. hypot (fst d) (snd d))"

lemma found_distance_simps [simp]:
  "found_distance None = None" "found_distance (Some d) = Some (hypot (fst d) (snd d))"
  by (simp_all add: found_distance_def)

lemma in_bounds_rect:
  assumes "tiles \<noteq> []"
  shows "in_bounds tiles nx ny
    = Inr (0 \<le> nx \<and> nx < int (length (hd tiles)) \<and> 0 \<le> ny \<and> ny < int (length tiles))"
  using assms by (auto simp: in_bounds_def py_index_def hd_conv_nth)

lemma scan_dy_find:
  assumes "tiles \<noteq> []" and "\<forall>row \<in> set tiles. length row = length (hd tiles)"
  shows "scan_dy tiles x y dx dys
    = Inr (found_distance (List.find (ocean_at tiles x y) (map (\<lambda>dy. (dx, dy)) dys)))"
proof (induction dys)
  case Nil
  then show ?case by simp
next
  case (Cons dy dys)
  let ?nx = "x + dx" and ?ny = "y + dy"
  let ?w = "int (length (hd tiles))" and ?h = "int (length tiles)"
  have dims: "has_dims tiles ?w ?h" using assms(2) by (simp add: has_dims_def)
  show ?case
  proof (cases "0 \<le> ?nx \<and> ?nx < ?w \<and> 0 \<le> ?ny \<and> ?ny < ?h")
    case True
    then have "in_grid ?w ?h (?nx, ?ny)" by (simp add: in_grid_def)
    from grid_get_in_grid [OF dims this]
    have get: "grid_get tiles ?nx ?ny = Inr (tiles ! nat ?ny ! nat ?nx)" by (simp add: cell_at_def)
    from True have oc: "ocean_at tiles x y (dx, dy) \<longleftrightarrow> tiles ! nat ?ny ! nat ?nx = ''ocean''"
      by (simp add: ocean_at_def)
    from True have inb: "in_bounds tiles ?nx ?ny = Inr True"
      by (simp add: in_bounds_rect [OF assms(1)])
    from get oc Cons.IH show ?thesis by (simp add: inb)
  next
    case False
    then have no: "\<not> ocean_at tiles x y (dx, dy)" by (auto simp: ocean_at_def)
    from False have inb: "in_bounds tiles ?nx ?ny = Inr False"
      by (simp add: in_bounds_rect [OF assms(1)])
    from no Cons.IH show ?thesis by (simp add: inb)
  qed
qed

lemma scan_dx_find:
  assumes "tiles \<noteq> []" and "\<forall>row \<in> set tiles. length row = length (hd tiles)"
  shows "scan_dx tiles x y radius dxs
    = Inr (found_distance (List.find (ocean_at tiles x y)
        (concat (map (\<lambda>dx. map (\<lambda>dy. (dx, dy)) [- radius..radius]) dxs))))"
proof (induction dxs)
  case Nil
  then show ?case by simp
next
  case (Cons dx dxs)
  then show ?case
    by (simp add: scan_dy_find [OF assms] find_append split: option.split)
qed

lemma scan_radius_find:
  assumes "tiles \<noteq> []" and "\<forall>row \<in> set tiles. length row = length (hd tiles)"
  shows "scan_radius tiles x y rs
    = Inr (found_distance (List.find (ocean_at tiles x y) (concat (map square_offsets rs))))"
proof (induction rs)
  case Nil
  then show ?case by simp
next
  case (Cons radius rs)
  then show ?case
    by (simp add: scan_dx_find [OF assms] find_append square_offsets_def split: option.split)
qed



lemma distance_to_ocean_refines:
  assumes "tiles \<noteq> []" and "\<forall>row \<in> set tiles. length row = length (hd tiles)"
    and "0 \<le> x" and "x < int (length (hd tiles))" and "0 \<le> y" and "y < int (length tiles)"
  shows "distance_to_ocean tiles x y = Inr (first_ocean_distance tiles x y)"
proof -
  let ?w = "int (length (hd tiles))" and ?h = "int (length tiles)"
  have dims: "has_dims tiles ?w ?h" using assms(2) by (simp add: has_dims_def)
  from assms(3-6) have "in_grid ?w ?h (x, y)" by (simp add: in_grid_def)
  from grid_get_in_grid [OF dims this]
  have get: "grid_get tiles x y = Inr (tiles ! nat y ! nat x)" by (simp add: cell_at_def)
  show ?thesis
    by (simp add: distance_to_ocean_def first_ocean_distance_def get
        scan_radius_find [OF assms(1,2)] scan_order_def split: option.split)
qed




section \<open>Biome classification\<close>

definition temperature_at :: "real \<Rightarrow> real \<Rightarrow> real" where
  "temperature_at lat_norm elevation =
     (let base_temp = 1 - \<bar>lat_norm\<bar>;
          lapse = max 0 (1 - elevation / 8000)
      in base_temp * lapse)"

definition moisture_at :: "rng \<Rightarrow> real \<Rightarrow> real \<times> rng" where
  "moisture_at r distance =
     (let (base, r') = uniform r 0 1;
          ocean_bonus = max 0 (1 - distance / 12)
      in (min 1 (6 / 10 * base + 4 / 10 * ocean_bonus), r'))"

definition biome :: "real \<Rightarrow> real \<Rightarrow> real \<Rightarrow> string" where
  "biome temperature moisture elevation =
     (if elevation > 3500 \<or> temperature < 15 / 100 then ''alpine''
      else if temperature < 3 / 10 \<and> moisture < 35 / 100 then ''tundra''
      else if temperature < 4 / 10 \<and> moisture \<ge> 35 / 100 then ''taiga''
      else if temperature > 65 / 100 \<and> moisture < 35 / 100 then ''desert''
      else if temperature > 65 / 100 \<and> moisture \<ge> 35 / 100 then ''rainforest''
      else if moisture \<ge> 5 / 10 then ''forest''
      else ''grassland'')"

text \<open>
  The loops of \<^verbatim>\<open>assign_biomes\<close>, rows built in the order the source fills them.
  \<^verbatim>\<open>y / (height - 1)\<close> is a division of two ints: ZeroDivisionError when
  \<open>height = 1\<close>, raised in the first round of the outer loop.
\<close>

fun biome_row ::
  "string list list \<Rightarrow> real list list \<Rightarrow> int \<Rightarrow> real \<Rightarrow> int list \<Rightarrow> rng
     \<Rightarrow> error + (string list \<times> rng)" where
  "biome_row tiles heights y lat_norm [] r = Inr ([], r)"
| "biome_row tiles heights y lat_norm (x # xs) r =
     and_then (grid_get heights x y) (\<lambda>elevation.
       let temp = temperature_at lat_norm elevation
       in and_then (distance_to_ocean tiles x y) (\<lambda>distance.
            let (moisture, r1) = moisture_at r distance;
                b = biome temp moisture elevation
            in and_then (biome_row tiles heights y lat_norm xs r1) (\<lambda>(bs, r2). Inr (b # bs, r2))))"

fun biome_rows ::
  "string list list \<Rightarrow> real list list \<Rightarrow> int \<Rightarrow> int \<Rightarrow> int list \<Rightarrow> rng
     \<Rightarrow> error + (string list list \<times> rng)" where
  "biome_rows tiles heights width height [] r = Inr ([], r)"
| "biome_rows tiles heights width height (y # ys) r =
     (if height - 1 = 0 then Inl ZeroDivisionError
      else let lat_norm = (real_of_int y / real_of_int (height - 1)) * 2 - 1
           in and_then (biome_row tiles heights y lat_norm [0..width - 1] r) (\<lambda>(bs, r1).
              and_then (biome_rows tiles heights width height ys r1) (\<lambda>(rest, r2).
                Inr (bs # rest, r2))))"

definition assign_biomes ::
  "string list list \<Rightarrow> real list list \<Rightarrow> rng \<Rightarrow> error + (string list list \<times> rng)" where
  "assign_biomes tiles heights r =
     (let height = int (length tiles)
      in and_then (py_index tiles 0) (\<lambda>row0.
           let width = int (length row0)
           in biome_rows tiles heights width height [0..height - 1] r))"

section \<open>Export and the program\<close>

text \<open>
  The lines \<^verbatim>\<open>export_obj\<close> writes. Numbers are kept as they are: the rounding of
  \<^verbatim>\<open>:.3f\<close> and the failure to open the file are outside the model.
\<close>

datatype obj_line = Comment string | Vertex real real real | Face int int int

definition vertex_lines :: "real list list \<Rightarrow> real \<Rightarrow> int \<Rightarrow> int \<Rightarrow> error + obj_line list" where
  "vertex_lines heights scale width height =
     map_err (\<lambda>(x, y). and_then (grid_get heights x y) (\<lambda>z.
                Inr (Vertex (real_of_int x * scale) (real_of_int y * scale) z)))
       (concat (map (\<lambda>y. map (\<lambda>x. (x, y)) [0..width - 1]) [0..height - 1]))"

definition face_lines :: "int \<Rightarrow> int \<Rightarrow> obj_line list" where
  "face_lines width height =
     concat (map (\<lambda>y. concat (map (\<lambda>x.
         let v1 = y * width + x + 1; v2 = v1 + 1; v3 = v1 + width; v4 = v3 + 1
         in [Face v1 v2 v4, Face v1 v4 v3]) [0..width - 1 - 1])) [0..height - 1 - 1])"

definition export_obj :: "real list list \<Rightarrow> real \<Rightarrow> error + obj_line list" where
  "export_obj heights scale =
     (let height = int (length heights)
      in and_then (py_index heights 0) (\<lambda>row0.
           let width = int (length row0)
           in and_then (vertex_lines heights scale width height) (\<lambda>vs.
                Inr (Comment ''Terrain OBJ'' # vs @ face_lines width height))))"

text \<open>The record \<^verbatim>\<open>write_metadata\<close> dumps: width, height, tiles, heights, biomes.\<close>

type_synonym metadata = "int \<times> int \<times> string list list \<times> real list list \<times> string list list"

definition write_metadata ::
  "string list list \<Rightarrow> real list list \<Rightarrow> string list list \<Rightarrow> error + metadata" where
  "write_metadata tiles heights biomes =
     and_then (py_index tiles 0) (\<lambda>row0.
       Inr (int (length row0), int (length tiles), tiles, heights, biomes))"

record args =
  arg_width :: int
  arg_height :: int
  arg_scale :: real
  arg_seed :: int
  arg_output :: string
  arg_metadata :: string

record run_output =
  out_mesh :: "obj_line list"
  out_metadata :: "metadata option"
  out_summary :: "string \<times> int \<times> int"

text \<open>
  \<^verbatim>\<open>main\<close>, after \<^verbatim>\<open>parse_args\<close>, which converts \<^verbatim>\<open>--width\<close> and
  \<^verbatim>\<open>--height\<close> with \<^verbatim>\<open>type=int\<close> and checks nothing else. \<open>seeded\<close> is
  \<^verbatim>\<open>random.Random\<close>: the stream of draws of a seed.
\<close>

definition main :: "set_order \<Rightarrow> (int \<Rightarrow> rng) \<Rightarrow> args \<Rightarrow> error + run_output" where
  "main ord seeded a =
     (let r = seeded (arg_seed a)
      in and_then (wave_function_collapse ord (arg_width a) (arg_height a) r PLANET_PROFILES)
           (\<lambda>(tiles, r1).
         and_then (generate_heightfield tiles r1 PLANET_PROFILES) (\<lambda>(heights, r2).
         and_then (assign_biomes tiles heights r2) (\<lambda>(biomes, r3).
         and_then (export_obj heights (arg_scale a)) (\<lambda>lines.
         and_then (if arg_metadata a \<noteq> []
                   then and_then (write_metadata tiles heights biomes) (\<lambda>m. Inr (Some m))
                   else Inr None) (\<lambda>md.
           Inr \<lparr>out_mesh = lines, out_metadata = md,
                out_summary = (arg_output a, arg_width a, arg_height a)\<rparr>))))))"

section \<open>The smallest grid\<close>

lemma fcard_vocabulary: "1 < fcard vocabulary"
proof -
  have "{|''ocean'', ''shore''|} |\<subseteq>| vocabulary"
    by (simp add: vocabulary_def tile_names_def TILE_TYPES_def)
  then have "fcard {|''ocean'', ''shore''|} \<le> fcard vocabulary" by (rule fcard_mono)
  moreover have "fcard {|''ocean'', ''shore''|} = 2" by (simp add: fcard_finsert_if)
  ultimately show ?thesis by simp
qed

lemma neighbors_1x1: "neighbors 0 0 1 1 = []"
  by (simp add: neighbors_def)

lemma solve_1x1:
  assumes "valid_order ord" and "profiles \<noteq> []"
  shows "\<exists>tw items t. initial_tile_weights r profiles = Inr (tw, sdrop 540 r)
           \<and> weight_items tw (ord vocabulary) = Inr items \<and> map fst items = ord vocabulary
           \<and> (\<forall>it \<in> set items. 0 < snd it)
           \<and> weighted_choice (sdrop 541 r) items = Inr (t, sdrop 542 r)
           \<and> t |\<in>| vocabulary
           \<and> solve ord 1 1 r profiles
               = Inr ([[{|t|}]], sdrop 542 r, [[[{|t|}]], [[vocabulary]]], 1)"
proof -
  from initial_tile_weights_ok [OF assms(2), of r] obtain tw where
    tw: "initial_tile_weights r profiles = Inr (tw, sdrop 540 r)" "weights_ok tw"
    by (auto simp: weights_ok_def)
  let ?g0 = "[[vocabulary]]"
  have g0: "initial_grid 1 1 = ?g0" by (simp add: initial_grid_def)
  from entropy_ok [OF assms(1) tw(2) cell_ok_vocabulary] obtain e where
    e: "entropy ord tw vocabulary = Inr e" by blast
  have get0: "grid_get ?g0 0 0 = Inr vocabulary" by (simp add: grid_get_def py_index_def)
  have scan0: "scan_rows ord tw ?g0 1 [0] = Inr [(0, 0, e)]"
    using fcard_vocabulary by (simp add: get0 e)
  note vs = valid_order_set [OF assms(1) cell_ok_vocabulary]
  from weight_items_ok [OF tw(2) vs(3)] obtain items where
    items: "weight_items tw (ord vocabulary) = Inr items" "map fst items = ord vocabulary"
    "\<forall>it \<in> set items. 0 < snd it" by blast
  from items(2) vs(2) have "items \<noteq> []" by auto
  from weighted_choice_total [OF this, of "sdrop 541 r"] obtain t where
    t: "weighted_choice (sdrop 541 r) items = Inr (t, sdrop 542 r)" "t \<in> fst ` set items"
    by auto
  from t(2) items(2) vs(1) have mem: "t |\<in>| vocabulary" by (metis set_map)
  let ?g1 = "[[{|t|}]]"
  have pick: "choice (sdrop 540 r) [(0 :: int, 0 :: int, e)] = Inr ((0, 0, e), sdrop 541 r)"
    by (simp add: choice_def)
  have set0: "grid_set ?g0 0 0 {|t|} = Inr ?g1"
    by (simp add: grid_set_def py_index_def py_store_def)
  have get1: "grid_get ?g1 0 0 = Inr {|t|}" by (simp add: grid_get_def py_index_def)
  from mem have ok1: "cell_ok {|t|}" by (simp add: cell_ok_def)
  from valid_order_set(3) [OF assms(1) ok1] allowed_loop_ok obtain allowed where
    al: "allowed_loop (ord {|t|}) {||} = Inr allowed" by blast
  have spread: "propagate ord 1 1 ?g1 [(0, 0)] [?g1, ?g0] = Inr (?g1, [?g1, ?g0])"
    by (simp add: propagate_round_def get1 al neighbors_1x1)
  have round: "collapse_round ord tw 1 1 ?g0 (sdrop 540 r) [?g0] [(0, 0, e)]
      = Inr (?g1, sdrop 542 r, [?g1, ?g0])"
    by (simp add: collapse_round_def pick get0 items(1) t(1) set0 spread del: propagate.simps)
  have small: "fcard {|t|} = 1" by (simp add: fcard_finsert_if)
  have scan1: "scan_rows ord tw ?g1 1 [0] = Inr []"
    by (simp add: get1 small)
  have last_round: "solve_loop ord tw 1 1 ?g1 (sdrop 542 r) [?g1, ?g0] (Suc 0)
      = Inr (?g1, sdrop 542 r, [?g1, ?g0], 1)"
    by (subst solve_loop.simps) (simp add: scan1 del: scan_rows.simps)
  have "solve_loop ord tw 1 1 ?g0 (sdrop 540 r) [?g0] 0 = Inr (?g1, sdrop 542 r, [?g1, ?g0], 1)"
    by (subst solve_loop.simps) (simp add: scan0 round last_round del: scan_rows.simps)
  with tw(1) have "solve ord 1 1 r profiles = Inr (?g1, sdrop 542 r, [?g1, ?g0], 1)"
    by (simp add: solve_def g0)
  with tw(1) items t(1) mem show ?thesis by blast
qed

lemma first_of_single:
  assumes "valid_order ord" and "t |\<in>| vocabulary"
  shows "first_of ord {|t|} = Inr t"
proof -
  from assms(2) have "cell_ok {|t|}" by (simp add: cell_ok_def)
  from valid_order_set(1,2) [OF assms(1) this] obtain a rest where
    "ord {|t|} = a # rest" "set (ord {|t|}) = {t}" by (cases "ord {|t|}") auto
  then show ?thesis by (auto simp: first_of_def)
qed

lemma wave_function_collapse_1x1:
  assumes "valid_order ord" and "profiles \<noteq> []"
  shows "\<exists>tw items t. initial_tile_weights r profiles = Inr (tw, sdrop 540 r)
           \<and> weight_items tw (ord vocabulary) = Inr items \<and> map fst items = ord vocabulary
           \<and> (\<forall>it \<in> set items. 0 < snd it)
           \<and> weighted_choice (sdrop 541 r) items = Inr (t, sdrop 542 r)
           \<and> t |\<in>| vocabulary
           \<and> wave_function_collapse ord 1 1 r profiles = Inr ([[t]], sdrop 542 r)"
proof -
  from solve_1x1 [OF assms, of r] obtain tw items t where
    s: "initial_tile_weights r profiles = Inr (tw, sdrop 540 r)"
    "weight_items tw (ord vocabulary) = Inr items" "map fst items = ord vocabulary"
    "\<forall>it \<in> set items. 0 < snd it"
    "weighted_choice (sdrop 541 r) items = Inr (t, sdrop 542 r)"
    "t |\<in>| vocabulary"
    "solve ord 1 1 r profiles = Inr ([[{|t|}]], sdrop 542 r, [[[{|t|}]], [[vocabulary]]], 1)"
    by blast
  from s(7) first_of_single [OF assms(1) s(6)]
  have "wave_function_collapse ord 1 1 r profiles = Inr ([[t]], sdrop 542 r)"
    by (simp add: wave_function_collapse_def)
  with s(1-6) show ?thesis by blast
qed

section \<open>A random source that always draws zero\<close>

lemma sdrop_zero_rng [simp]: "sdrop n zero_rng = zero_rng"
  by (simp add: zero_rng_def)

lemma zero_rng_simps [simp]: "shd zero_rng = Draw 0 0 0" "stl zero_rng = zero_rng"
  by (simp_all add: zero_rng_def)

lemma weighted_choice_zero_rng:
  assumes "0 < w"
  shows "weighted_choice zero_rng ((n, w) # rest) = Inr (n, zero_rng)"
  using assms by (simp add: weighted_choice_def uniform_def)

lemma catalog_order_vocabulary:
  "catalog_order vocabulary = [''ocean'', ''shore'', ''lowland'', ''highland'', ''mountain'', ''polar'']"
  by (simp add: catalog_order_def order_by_def vocabulary_def tile_names_def TILE_TYPES_def)

lemma reverse_order_vocabulary:
  "reverse_order vocabulary = [''polar'', ''mountain'', ''highland'', ''lowland'', ''shore'', ''ocean'']"
  by (simp add: reverse_order_def order_by_def vocabulary_def tile_names_def TILE_TYPES_def)

section \<open>A grid of one cell\<close>

lemma generate_heightfield_1x1:
  assumes "t |\<in>| vocabulary"
  shows "\<exists>v. generate_heightfield [[t]] r PLANET_PROFILES = Inr ([[v]], sdrop 3 r)"
proof -
  from assms tile_type_known obtain tile where tile: "tile_type t = Inr tile"
    by (auto simp: vocabulary_member)
  from planet_sample_total [OF PLANET_PROFILES_nonempty, of r] obtain sample where
    "planet_sample r PLANET_PROFILES = Inr (sample, sdrop 3 r)" by blast
  with tile show ?thesis
    by (simp add: generate_heightfield_def py_index_def grid_get_def case_prod_beta Let_def)
qed

lemma assign_biomes_one_row: "assign_biomes [row] heights r = Inl ZeroDivisionError"
  by (simp add: assign_biomes_def py_index_def)

lemma export_obj_1x1: "export_obj [[z]] scale = Inr [Comment ''Terrain OBJ'', Vertex 0 0 z]"
  by (simp add: export_obj_def py_index_def vertex_lines_def face_lines_def grid_get_def)

lemma main_1x1:
  assumes "valid_order ord" and "arg_width a = 1" and "arg_height a = 1"
  shows "main ord seeded a = Inl ZeroDivisionError"
proof -
  let ?r = "seeded (arg_seed a)"
  from wave_function_collapse_1x1 [OF assms(1) PLANET_PROFILES_nonempty, of ?r] obtain t where
    t: "t |\<in>| vocabulary"
    "wave_function_collapse ord 1 1 ?r PLANET_PROFILES = Inr ([[t]], sdrop 542 ?r)"
    by blast
  from generate_heightfield_1x1 [OF t(1), of "sdrop 542 ?r"] obtain v where
    "generate_heightfield [[t]] (sdrop 542 ?r) PLANET_PROFILES = Inr ([[v]], sdrop 3 (sdrop 542 ?r))"
    by blast
  with t(2) show ?thesis
    by (simp add: main_def assms(2,3) assign_biomes_one_row del: sdrop_add)
qed

text \<open>
  C2. Width 1 and height 1, any seed and any valid iteration order. The solver's main loop
  makes one round: its history has two grids, the initial one and the one with the cell
  collapsed, so propagation changed nothing, and the cell has no neighbours. The exporter,
  given a grid of one elevation, writes one vertex and no face. But \<^verbatim>\<open>main\<close> does not
  reach the exporter: \<^verbatim>\<open>assign_biomes\<close> divides by \<open>height - 1 = 0\<close> and the run ends
  with ZeroDivisionError.
\<close>

theorem one_cell_grid_solved_in_one_round_but_run_fails:
  assumes "valid_order ord" and "arg_width a = 1" and "arg_height a = 1"
  shows "(\<exists>t. t |\<in>| vocabulary
            \<and> solve ord 1 1 (seeded (arg_seed a)) PLANET_PROFILES
                = Inr ([[{|t|}]], sdrop 542 (seeded (arg_seed a)), [[[{|t|}]], [[vocabulary]]], 1))
       \<and> neighbors 0 0 1 1 = []
       \<and> export_obj [[z]] (arg_scale a) = Inr [Comment ''Terrain OBJ'', Vertex 0 0 z]
       \<and> main ord seeded a = Inl ZeroDivisionError"
proof -
  from solve_1x1 [OF assms(1) PLANET_PROFILES_nonempty, of "seeded (arg_seed a)"]
  have "\<exists>t. t |\<in>| vocabulary
      \<and> solve ord 1 1 (seeded (arg_seed a)) PLANET_PROFILES
          = Inr ([[{|t|}]], sdrop 542 (seeded (arg_seed a)), [[[{|t|}]], [[vocabulary]]], 1)"
    by blast
  with neighbors_1x1 export_obj_1x1 main_1x1 [OF assms] show ?thesis by blast
qed

definition default_args :: "int \<Rightarrow> int \<Rightarrow> args" where
  "default_args w h =
     \<lparr>arg_width = w, arg_height = h, arg_scale = 1, arg_seed = 1337,
      arg_output = ''terrain.obj'', arg_metadata = []\<rparr>"

theorem one_cell_grid_solved_in_one_round_but_run_fails_witness:
  "valid_order catalog_order \<and> arg_width (default_args 1 1) = 1 \<and> arg_height (default_args 1 1) = 1
   \<and> main catalog_order (\<lambda>seed. zero_rng) (default_args 1 1) = Inl ZeroDivisionError"
proof -
  have w: "arg_width (default_args 1 1) = 1" and h: "arg_height (default_args 1 1) = 1"
    by (simp_all add: default_args_def)
  from one_cell_grid_solved_in_one_round_but_run_fails [OF valid_catalog_order w h]
    valid_catalog_order w h
  show ?thesis by blast
qed

section \<open>Dimensions that are not positive\<close>

lemma scan_rows_no_columns: "width \<le> 0 \<Longrightarrow> scan_rows ord tw g width ys = Inr []"
  by (induction ys) simp_all

lemma solve_loop_no_cells:
  assumes "width \<le> 0 \<or> height \<le> 0"
  shows "solve_loop ord tw width height g r hist iters = Inr (g, r, hist, iters)"
proof -
  from assms have "scan_rows ord tw g width [0..height - 1] = Inr []"
    by (auto simp: scan_rows_no_columns)
  then show ?thesis by (subst solve_loop.simps) simp
qed

lemma initial_grid_no_cells:
  "width \<le> 0 \<or> height \<le> 0 \<Longrightarrow> initial_grid width height = replicate (nat height) []"
  by (auto simp: initial_grid_def)

lemma map_err_empty_rows: "map_err (map_err f) (replicate n []) = Inr (replicate n [])"
  by (induction n) simp_all

lemma wave_function_collapse_no_cells:
  assumes "profiles \<noteq> []" and "width \<le> 0 \<or> height \<le> 0"
  shows "wave_function_collapse ord width height r profiles
           = Inr (replicate (nat height) [], sdrop 540 r)"
proof -
  from initial_tile_weights_ok [OF assms(1), of r] obtain tw where
    "initial_tile_weights r profiles = Inr (tw, sdrop 540 r)" by blast
  then show ?thesis
    by (simp add: wave_function_collapse_def solve_def solve_loop_no_cells [OF assms(2)]
        initial_grid_no_cells [OF assms(2)] map_err_empty_rows Let_def)
qed

lemma length_upto_nat: "length [0..int n - 1] = n"
  by simp

lemma height_rows_no_columns:
  "height_rows tiles 0 ys r profiles = Inr (replicate (length ys) [], r)"
  by (induction ys) simp_all

lemma generate_heightfield_no_columns:
  assumes "0 < n"
  shows "generate_heightfield (replicate n []) r profiles = Inr (replicate n [], r)"
  using assms
  by (simp add: generate_heightfield_def py_index_def height_rows_no_columns)

lemma generate_heightfield_no_rows: "generate_heightfield [] r profiles = Inl IndexError"
  by (simp add: generate_heightfield_def py_index_def)

lemma biome_rows_no_columns:
  "height - 1 \<noteq> 0 \<Longrightarrow> biome_rows tiles heights 0 height ys r = Inr (replicate (length ys) [], r)"
  by (induction ys) simp_all

lemma assign_biomes_no_columns:
  assumes "1 < n"
  shows "assign_biomes (replicate n []) heights r = Inr (replicate n [], r)"
  using assms
  by (simp add: assign_biomes_def py_index_def biome_rows_no_columns)

lemma concat_empty_rows: "concat (map (\<lambda>y. []) ys) = []"
  by (induction ys) simp_all

lemma export_obj_no_columns:
  assumes "0 < n"
  shows "export_obj (replicate n []) scale = Inr [Comment ''Terrain OBJ'']"
  using assms
  by (simp add: export_obj_def py_index_def vertex_lines_def face_lines_def concat_empty_rows)

lemma write_metadata_no_columns:
  assumes "0 < n"
  shows "write_metadata (replicate n []) heights biomes
           = Inr (0, int n, replicate n [], heights, biomes)"
  using assms by (simp add: write_metadata_def py_index_def)

text \<open>What a run gives when the grid has rows but no columns.\<close>

definition empty_mesh_output :: "args \<Rightarrow> run_output" where
  "empty_mesh_output a =
     (let rows = replicate (nat (arg_height a)) []
      in \<lparr>out_mesh = [Comment ''Terrain OBJ''],
          out_metadata = (if arg_metadata a \<noteq> []
                          then Some (0, arg_height a, rows, replicate (nat (arg_height a)) [],
                                     replicate (nat (arg_height a)) [])
                          else None),
          out_summary = (arg_output a, arg_width a, arg_height a)\<rparr>)"

lemma main_no_cells:
  assumes "arg_width a \<le> 0 \<or> arg_height a \<le> 0"
  shows "main ord seeded a =
           (if arg_height a \<le> 0 then Inl IndexError
            else if arg_height a = 1 then Inl ZeroDivisionError
            else Inr (empty_mesh_output a))"
proof -
  let ?r = "seeded (arg_seed a)"
  let ?n = "nat (arg_height a)"
  note wfc = wave_function_collapse_no_cells [OF PLANET_PROFILES_nonempty assms, of ord ?r]
  consider "arg_height a \<le> 0" | "arg_height a = 1" | "1 < arg_height a" by linarith
  then show ?thesis
  proof cases
    case 1
    then show ?thesis by (simp add: main_def wfc generate_heightfield_no_rows)
  next
    case 2
    with wfc have "wave_function_collapse ord (arg_width a) 1 ?r PLANET_PROFILES
        = Inr ([[]], sdrop 540 ?r)" by simp
    moreover have "generate_heightfield [[]] (sdrop 540 ?r) PLANET_PROFILES
        = Inr ([[]], sdrop 540 ?r)"
      using generate_heightfield_no_columns [of 1] by simp
    ultimately show ?thesis using 2
      by (simp add: main_def assign_biomes_one_row)
  next
    case 3
    then have n: "1 < ?n" "0 < ?n" by simp_all
    from 3 show ?thesis
      by (simp add: main_def wfc generate_heightfield_no_columns [OF n(2)]
          assign_biomes_no_columns [OF n(1)] export_obj_no_columns [OF n(2)]
          write_metadata_no_columns [OF n(2)] empty_mesh_output_def)
  qed
qed

text \<open>
  C3. Nothing checks the dimensions. With a width or a height that is zero or negative,
  \<^verbatim>\<open>main\<close> calls the solver with them as given; the solver raises nothing, draws the
  540 numbers of the tile weights and returns a grid with no cell (\<open>height\<close> empty
  rows, none for \<open>height \<le> 0\<close>); the run then goes on to the later stages with that
  grid.
\<close>

theorem dimensions_reach_solver_unchecked:
  assumes "arg_width a \<le> 0 \<or> arg_height a \<le> 0"
  shows "wave_function_collapse ord (arg_width a) (arg_height a) (seeded (arg_seed a))
             PLANET_PROFILES
           = Inr (replicate (nat (arg_height a)) [], sdrop 540 (seeded (arg_seed a)))
       \<and> main ord seeded a =
           (let tiles = replicate (nat (arg_height a)) [];
                r1 = sdrop 540 (seeded (arg_seed a))
            in and_then (generate_heightfield tiles r1 PLANET_PROFILES) (\<lambda>(heights, r2).
               and_then (assign_biomes tiles heights r2) (\<lambda>(biomes, r3).
               and_then (export_obj heights (arg_scale a)) (\<lambda>lines.
               and_then (if arg_metadata a \<noteq> []
                         then and_then (write_metadata tiles heights biomes) (\<lambda>m. Inr (Some m))
                         else Inr None) (\<lambda>md.
                 Inr \<lparr>out_mesh = lines, out_metadata = md,
                      out_summary = (arg_output a, arg_width a, arg_height a)\<rparr>)))))"
proof -
  note wfc = wave_function_collapse_no_cells [OF PLANET_PROFILES_nonempty assms,
      of ord "seeded (arg_seed a)"]
  then show ?thesis by (simp add: main_def Let_def)
qed

theorem dimensions_reach_solver_unchecked_witness:
  "arg_width (default_args (- 3) 4) \<le> 0
   \<and> wave_function_collapse catalog_order (- 3) 4 zero_rng PLANET_PROFILES
       = Inr (replicate 4 [], zero_rng)
   \<and> main catalog_order (\<lambda>seed. zero_rng) (default_args (- 3) 4)
       = Inr \<lparr>out_mesh = [Comment ''Terrain OBJ''], out_metadata = None,
              out_summary = (''terrain.obj'', - 3, 4)\<rparr>"
proof -
  have w: "arg_width (default_args (- 3) 4) \<le> 0" by (simp add: default_args_def)
  then have "arg_width (default_args (- 3) 4) \<le> 0 \<or> arg_height (default_args (- 3) 4) \<le> 0" ..
  from dimensions_reach_solver_unchecked [OF this, of catalog_order "\<lambda>seed. zero_rng"] w
  show ?thesis
    by (simp add: default_args_def generate_heightfield_no_columns assign_biomes_no_columns
        export_obj_no_columns)
qed

text \<open>
  Width 0 and height 2 with the default arguments: the run is not refused, it completes
  and writes a mesh of the comment line alone.
\<close>

theorem zero_width_run_completes_counterexample:
  "main catalog_order (\<lambda>seed. zero_rng) (default_args 0 2)
     = Inr \<lparr>out_mesh = [Comment ''Terrain OBJ''], out_metadata = None,
            out_summary = (''terrain.obj'', 0, 2)\<rparr>"
proof -
  have "arg_width (default_args 0 2) \<le> 0 \<or> arg_height (default_args 0 2) \<le> 0"
    by (simp add: default_args_def)
  from main_no_cells [OF this, of catalog_order "\<lambda>seed. zero_rng"]
  show ?thesis by (simp add: default_args_def empty_mesh_output_def)
qed

section \<open>Same seed, two iteration orders\<close>

lemma visit_single_unchanged:
  assumes "grid_get g nx ny = Inr {|t|}"
  shows "visit_neighbors allowed g stack hist [(nx, ny)] = Inr (g, stack, hist)"
proof -
  have "{|t|} |\<inter>| allowed = {|t|} \<or> {|t|} |\<inter>| allowed = {||}" by auto
  then show ?thesis using assms by (auto simp: Let_def)
qed

lemma pick_first_zero_rng:
  assumes "valid_order ord" and "weights_ok tw" and "cell_ok c" and "ord c = n # rest"
  shows "\<exists>items. weight_items tw (ord c) = Inr items
           \<and> weighted_choice zero_rng items = Inr (n, zero_rng)"
proof -
  from weight_items_ok [OF assms(2) valid_order_set(3) [OF assms(1,3)]] obtain items where
    items: "weight_items tw (ord c) = Inr items" "map fst items = ord c"
    "\<forall>it \<in> set items. 0 < snd it" by blast
  from items(2) assms(4) obtain w more where eq: "items = (n, w) # more" by (cases items) auto
  with items(3) have "0 < w" by simp
  from weighted_choice_zero_rng [OF this, of n more] items(1) show ?thesis by (simp add: eq)
qed

lemma propagate_from_single_pair:
  assumes "valid_order ord" and "cell_ok c" and "grid_get g x y = Inr c"
    and "neighbors x y width height = [(nx, ny)]" and "grid_get g nx ny = Inr {|t|}"
  shows "propagate ord width height g [(x, y)] hist = Inr (g, hist)"
proof -
  from allowed_loop_ok [OF valid_order_set(3) [OF assms(1,2)], of "{||}"] obtain allowed where
    "allowed_loop (ord c) {||} = Inr allowed" by blast
  then have "propagate_round ord width height g x y [] hist = Inr (g, [], hist)"
    by (simp add: propagate_round_def assms(3,4) visit_single_unchanged [OF assms(5)]
        del: visit_neighbors.simps)
  then show ?thesis by simp
qed

lemma upto_0_1: "[0..1] = [0, 1 :: int]"
  by (subst upto_rec1) simp_all

lemma neighbors_column:
  "neighbors 0 0 1 2 = [(0, 1)]" "neighbors 0 1 1 2 = [(0, 0)]"
  by (simp_all add: neighbors_def)

lemma solve_1x2_zero_rng:
  assumes ord: "valid_order ord"
    and first: "ord vocabulary = n # rest"
    and al: "allowed_loop (ord {|n|}) {||} = Inr allowed"
    and c1: "c1 = (if vocabulary |\<inter>| allowed \<noteq> vocabulary \<and> vocabulary |\<inter>| allowed \<noteq> {||}
                   then vocabulary |\<inter>| allowed else vocabulary)"
    and big: "1 < fcard c1"
    and second: "ord c1 = m # rest'"
  shows "wave_function_collapse ord 1 2 zero_rng PLANET_PROFILES = Inr ([[n], [m]], zero_rng)"
proof -
  from initial_tile_weights_ok [OF PLANET_PROFILES_nonempty, of zero_rng] obtain tw where
    tw: "initial_tile_weights zero_rng PLANET_PROFILES = Inr (tw, zero_rng)" "weights_ok tw"
    by (auto simp: weights_ok_def)
  have ok1: "cell_ok c1"
  proof -
    have "vocabulary |\<inter>| allowed |\<subseteq>| vocabulary" by simp
    with cell_ok_vocabulary show ?thesis unfolding c1 cell_ok_def by auto
  qed
  from valid_order_set(1) [OF ord cell_ok_vocabulary] first have n: "n |\<in>| vocabulary"
    by (metis list.set_intros(1))
  from valid_order_set(1) [OF ord ok1] second have "m |\<in>| c1" by (metis list.set_intros(1))
  with ok1 have m: "m |\<in>| vocabulary" by (auto simp: cell_ok_def)
  from n have okn: "cell_ok {|n|}" by (simp add: cell_ok_def)
  from m have okm: "cell_ok {|m|}" by (simp add: cell_ok_def)
  have single: "fcard {|t|} = 1" for t :: string by (simp add: fcard_finsert_if)
  let ?g0 = "[[vocabulary], [vocabulary]]"
  let ?g1 = "[[{|n|}], [vocabulary]]"
  let ?g2 = "[[{|n|}], [c1]]"
  let ?g3 = "[[{|n|}], [{|m|}]]"
  have g0: "initial_grid 1 2 = ?g0" by (simp add: initial_grid_def numeral_2_eq_2)
  have get0: "grid_get ?g0 0 0 = Inr vocabulary" "grid_get ?g0 0 1 = Inr vocabulary"
    by (simp_all add: grid_get_def py_index_def)
  have get1: "grid_get ?g1 0 0 = Inr {|n|}" "grid_get ?g1 0 1 = Inr vocabulary"
    by (simp_all add: grid_get_def py_index_def)
  have get2: "grid_get ?g2 0 0 = Inr {|n|}" "grid_get ?g2 0 1 = Inr c1"
    by (simp_all add: grid_get_def py_index_def)
  have get3: "grid_get ?g3 0 0 = Inr {|n|}" "grid_get ?g3 0 1 = Inr {|m|}"
    by (simp_all add: grid_get_def py_index_def)
  have set0: "grid_set ?g0 0 0 {|n|} = Inr ?g1"
    by (simp add: grid_set_def py_index_def py_store_def)
  have set1: "grid_set ?g1 0 1 c1 = Inr ?g2"
    by (simp add: grid_set_def py_index_def py_store_def)
  have set2: "grid_set ?g2 0 1 {|m|} = Inr ?g3"
    by (simp add: grid_set_def py_index_def py_store_def)
  from entropy_ok [OF ord tw(2) cell_ok_vocabulary] obtain e where
    e: "entropy ord tw vocabulary = Inr e" by blast
  from entropy_ok [OF ord tw(2) ok1] obtain e1 where
    e1: "entropy ord tw c1 = Inr e1" by blast
  have scan0: "scan_rows ord tw ?g0 1 [0, 1] = Inr [(0, 0, e), (0, 1, e)]"
    using fcard_vocabulary by (simp add: get0 e)
  have scan2: "scan_rows ord tw ?g2 1 [0, 1] = Inr [(0, 1, e1)]"
    using big by (simp add: get2 e1 single)
  have scan3: "scan_rows ord tw ?g3 1 [0, 1] = Inr []"
    by (simp add: get3 single)
  from pick_first_zero_rng [OF ord tw(2) cell_ok_vocabulary first] obtain items where
    items: "weight_items tw (ord vocabulary) = Inr items"
    "weighted_choice zero_rng items = Inr (n, zero_rng)" by blast
  from pick_first_zero_rng [OF ord tw(2) ok1 second] obtain items1 where
    items1: "weight_items tw (ord c1) = Inr items1"
    "weighted_choice zero_rng items1 = Inr (m, zero_rng)" by blast
  have pick0: "choice zero_rng [(0 :: int, 0 :: int, e), (0, 1, e)] = Inr ((0, 0, e), zero_rng)"
    by (simp add: choice_def)
  have pick2: "choice zero_rng [(0 :: int, 1 :: int, e1)] = Inr ((0, 1, e1), zero_rng)"
    by (simp add: choice_def)
  have again: "propagate ord 1 2 ?g2 [(0, 1)] hist = Inr (?g2, hist)" for hist
    by (rule propagate_from_single_pair [OF ord ok1 get2(2) neighbors_column(2) get2(1)])
  have spread1: "\<exists>hist. propagate ord 1 2 ?g1 [(0, 0)] [?g1, ?g0] = Inr (?g2, hist)"
  proof (cases "vocabulary |\<inter>| allowed \<noteq> vocabulary \<and> vocabulary |\<inter>| allowed \<noteq> {||}")
    case True
    then have eq: "c1 = vocabulary |\<inter>| allowed" by (simp add: c1)
    from True have "propagate_round ord 1 2 ?g1 0 0 [] [?g1, ?g0]
        = Inr (?g2, [(0, 1)], [?g2, ?g1, ?g0])"
      by (simp add: propagate_round_def get1 al neighbors_column Let_def set1 [unfolded eq] eq)
    then have "propagate ord 1 2 ?g1 [(0, 0)] [?g1, ?g0]
        = propagate ord 1 2 ?g2 [(0, 1)] [?g2, ?g1, ?g0]" by simp
    also have "\<dots> = Inr (?g2, [?g2, ?g1, ?g0])" by (rule again)
    finally show ?thesis by blast
  next
    case False
    then have eq: "c1 = vocabulary" by (simp add: c1)
    from False have "propagate_round ord 1 2 ?g1 0 0 [] [?g1, ?g0] = Inr (?g1, [], [?g1, ?g0])"
      by (auto simp: propagate_round_def get1 al neighbors_column Let_def)
    then show ?thesis by (simp add: eq)
  qed
  then obtain hist1 where
    spread1: "propagate ord 1 2 ?g1 [(0, 0)] [?g1, ?g0] = Inr (?g2, hist1)" by blast
  have spread2: "propagate ord 1 2 ?g3 [(0, 1)] hist = Inr (?g3, hist)" for hist
    by (rule propagate_from_single_pair [OF ord okm get3(2) neighbors_column(2) get3(1)])
  have round1: "collapse_round ord tw 1 2 ?g0 zero_rng [?g0] [(0, 0, e), (0, 1, e)]
      = Inr (?g2, zero_rng, hist1)"
    by (simp add: collapse_round_def pick0 get0 items set0 spread1 del: propagate.simps)
  have round2: "collapse_round ord tw 1 2 ?g2 zero_rng hist1 [(0, 1, e1)]
      = Inr (?g3, zero_rng, (?g3 # hist1))"
    by (simp add: collapse_round_def pick2 get2 items1 set2 spread2 del: propagate.simps)
  have loop3: "solve_loop ord tw 1 2 ?g3 zero_rng hist iters = Inr (?g3, zero_rng, hist, iters)"
    for hist iters
    by (subst solve_loop.simps) (simp add: upto_0_1 scan3 del: scan_rows.simps)
  have loop2: "solve_loop ord tw 1 2 ?g2 zero_rng hist1 (Suc 0)
      = Inr (?g3, zero_rng, ?g3 # hist1, Suc (Suc 0))"
    by (subst solve_loop.simps) (simp add: upto_0_1 scan2 round2 loop3 del: scan_rows.simps)
  have loop1: "solve_loop ord tw 1 2 ?g0 zero_rng [?g0] 0
      = Inr (?g3, zero_rng, ?g3 # hist1, Suc (Suc 0))"
    by (subst solve_loop.simps) (simp add: upto_0_1 scan0 round1 loop2 del: scan_rows.simps)
  with tw(1) have "solve ord 1 2 zero_rng PLANET_PROFILES = Inr (?g3, zero_rng, ?g3 # hist1, Suc (Suc 0))"
    by (simp add: solve_def g0)
  with first_of_single [OF ord n] first_of_single [OF ord m] show ?thesis
    by (simp add: wave_function_collapse_def)
qed

lemma wave_function_collapse_column_catalog:
  "wave_function_collapse catalog_order 1 2 zero_rng PLANET_PROFILES
     = Inr ([[''ocean''], [''ocean'']], zero_rng)"
proof -
  let ?allowed = "{|''ocean'', ''shore'', ''lowland''|}"
  have al: "allowed_loop (catalog_order {|''ocean''|}) {||} = Inr ?allowed"
    by (simp add: catalog_order_def order_by_def tile_names_def TILE_TYPES_def tile_type_def)
  have inter: "vocabulary |\<inter>| ?allowed = ?allowed"
    by (auto simp: vocabulary_eq)
  have "''highland'' |\<in>| vocabulary" "''highland'' |\<notin>| ?allowed"
    by (simp_all add: vocabulary_eq)
  then have neq: "?allowed \<noteq> vocabulary" by metis
  have c1: "?allowed = (if vocabulary |\<inter>| ?allowed \<noteq> vocabulary \<and> vocabulary |\<inter>| ?allowed \<noteq> {||}
                        then vocabulary |\<inter>| ?allowed else vocabulary)"
    using neq by (simp add: inter)
  have big: "1 < fcard ?allowed" by (simp add: fcard_finsert_if)
  have second: "catalog_order ?allowed = ''ocean'' # [''shore'', ''lowland'']"
    by (simp add: catalog_order_def order_by_def tile_names_def TILE_TYPES_def)
  show ?thesis
    by (rule solve_1x2_zero_rng [OF valid_catalog_order catalog_order_vocabulary al c1 big second])
qed

lemma wave_function_collapse_column_reverse:
  "wave_function_collapse reverse_order 1 2 zero_rng PLANET_PROFILES
     = Inr ([[''polar''], [''polar'']], zero_rng)"
proof -
  have al: "allowed_loop (reverse_order {|''polar''|}) {||} = Inr vocabulary"
    by (simp add: reverse_order_def order_by_def tile_names_def TILE_TYPES_def tile_type_def
        vocabulary_eq)
  have c1: "vocabulary = (if vocabulary |\<inter>| vocabulary \<noteq> vocabulary \<and> vocabulary |\<inter>| vocabulary \<noteq> {||}
                         then vocabulary |\<inter>| vocabulary else vocabulary)"
    by simp
  show ?thesis
    by (rule solve_1x2_zero_rng [OF valid_reverse_order reverse_order_vocabulary al c1
          fcard_vocabulary reverse_order_vocabulary])
qed

lemma planet_sample_zero_rng: "planet_sample zero_rng PLANET_PROFILES = Inr (200, zero_rng)"
  by (simp add: planet_sample_def uniform_def gauss_def PLANET_PROFILES_def py_index_def Let_def)

lemma generate_heightfield_column_ocean:
  "generate_heightfield [[''ocean''], [''ocean'']] zero_rng PLANET_PROFILES
     = Inr ([[- 200], [- 200]], zero_rng)"
  by (simp add: generate_heightfield_def py_index_def upto_0_1 grid_get_def tile_type_def
      TILE_TYPES_def planet_sample_zero_rng)

lemma generate_heightfield_column_polar:
  "generate_heightfield [[''polar''], [''polar'']] zero_rng PLANET_PROFILES
     = Inr ([[200], [200]], zero_rng)"
  by (simp add: generate_heightfield_def py_index_def upto_0_1 grid_get_def tile_type_def
      TILE_TYPES_def planet_sample_zero_rng)

lemma biome_at_pole: "\<bar>lat_norm\<bar> = 1 \<Longrightarrow> biome (temperature_at lat_norm elevation) m elevation = ''alpine''"
  by (simp add: temperature_at_def biome_def)

lemma assign_biomes_column:
  "assign_biomes [[a], [b]] [[h0], [h1]] zero_rng = Inr ([[''alpine''], [''alpine'']], zero_rng)"
proof -
  let ?tiles = "[[a], [b]]"
  have shape: "?tiles \<noteq> []" "\<forall>row \<in> set ?tiles. length row = length (hd ?tiles)" by simp_all
  from distance_to_ocean_refines [OF shape, of 0 0] obtain d0 where
    d0: "distance_to_ocean ?tiles 0 0 = Inr d0" by simp
  from distance_to_ocean_refines [OF shape, of 0 1] obtain d1 where
    d1: "distance_to_ocean ?tiles 0 1 = Inr d1" by simp
  have get: "grid_get [[h0], [h1]] 0 0 = Inr h0" "grid_get [[h0], [h1]] 0 1 = Inr h1"
    by (simp_all add: grid_get_def py_index_def)
  show ?thesis
    by (simp add: assign_biomes_def py_index_def upto_0_1 get d0 d1 moisture_at_def uniform_def
        biome_at_pole Let_def)
qed

lemma export_obj_column:
  "export_obj [[h0], [h1]] 1 = Inr [Comment ''Terrain OBJ'', Vertex 0 0 h0, Vertex 0 1 h1]"
  by (simp add: export_obj_def py_index_def vertex_lines_def face_lines_def grid_get_def upto_0_1)

text \<open>The default arguments, with a metadata file asked for.\<close>

definition metadata_args :: "int \<Rightarrow> int \<Rightarrow> args" where
  "metadata_args w h = (default_args w h)\<lparr>arg_metadata := ''terrain.json''\<rparr>"

text \<open>
  C1. The random source seeded alike, width 1 and height 2, two processes that differ only
  in the order in which they iterate a set of tile names (string hashing is randomised per
  process): in catalog order the run solves both cells to \<open>ocean\<close> and writes vertices at
  elevation \<open>-200\<close>, in the reverse order it solves both to \<open>polar\<close> and writes them at
  \<open>200\<close>. Tile grid, height grid and mesh are not a function of the seed, the dimensions
  and the scale alone.
\<close>

theorem same_seed_other_set_order_other_output:
  "main catalog_order (\<lambda>seed. zero_rng) (metadata_args 1 2)
     = Inr \<lparr>out_mesh = [Comment ''Terrain OBJ'', Vertex 0 0 (- 200), Vertex 0 1 (- 200)],
            out_metadata = Some (1, 2, [[''ocean''], [''ocean'']], [[- 200], [- 200]],
                                 [[''alpine''], [''alpine'']]),
            out_summary = (''terrain.obj'', 1, 2)\<rparr>
   \<and> main reverse_order (\<lambda>seed. zero_rng) (metadata_args 1 2)
     = Inr \<lparr>out_mesh = [Comment ''Terrain OBJ'', Vertex 0 0 200, Vertex 0 1 200],
            out_metadata = Some (1, 2, [[''polar''], [''polar'']], [[200], [200]],
                                 [[''alpine''], [''alpine'']]),
            out_summary = (''terrain.obj'', 1, 2)\<rparr>"
  by (simp add: main_def metadata_args_def default_args_def
      wave_function_collapse_column_catalog wave_function_collapse_column_reverse
      generate_heightfield_column_ocean generate_heightfield_column_polar
      assign_biomes_column export_obj_column write_metadata_def py_index_def)

end
